theory Spec2Isabelle
  imports Main
begin

section \<open>Python string operations used by the handlers\<close>

text \<open>
  Strings are lists of 8-bit characters. File names are compared only against the ASCII
  suffix \<open>.pdf\<close>, so \<open>str.lower\<close> is modelled on the ASCII letters; every other
  character is left as it is.
\<close>

definition lower_char :: "char \<Rightarrow> char" where
  "lower_char c =
     (let n = (of_char c :: nat) in if 65 \<le> n \<and> n \<le> 90 then char_of (n + 32) else c)"

definition lower :: "string \<Rightarrow> string" where
  "lower s = map lower_char s"

definition endswith :: "string \<Rightarrow> string \<Rightarrow> bool" where
  "endswith s suffix =
     (length suffix \<le> length s \<and> drop (length s - length suffix) s = suffix)"

text \<open>
  \<open>s.replace(old, new)\<close>: every non-overlapping occurrence of \<open>old\<close>, scanning from the
  left, is replaced. With an empty \<open>old\<close> Python puts \<open>new\<close> before every character
  and at the end.
\<close>

function replace :: "string \<Rightarrow> string \<Rightarrow> string \<Rightarrow> string" where
  "replace [] old new = (if old = [] then new else [])"
| "replace (c # cs) old new =
     (if old = [] then new @ c # replace cs old new
      else if take (length old) (c # cs) = old
        then new @ replace (drop (length old) (c # cs)) old new
      else c # replace cs old new)"
  by pat_completeness auto
termination
  by (relation "measure (\<lambda>(s, old, new). length s)") auto

text \<open>\<open>sub in s\<close>: some position of \<open>s\<close> starts with \<open>sub\<close>.\<close>

fun contains :: "string \<Rightarrow> string \<Rightarrow> bool" where
  "contains [] sub = (sub = [])"
| "contains (c # cs) sub = (take (length sub) (c # cs) = sub \<or> contains cs sub)"

text \<open>\<open>os.path.basename\<close>: what follows the last slash.\<close>

fun basename :: "string \<Rightarrow> string" where
  "basename [] = []"
| "basename (c # cs) = (if CHR ''/'' \<in> set cs then basename cs
                        else if c = CHR ''/'' then cs else c # cs)"

text \<open>Decimal rendering of a non-negative integer, as an f-string prints it.\<close>

definition digit_char :: "nat \<Rightarrow> char" where
  "digit_char d = char_of (48 + d)"

function str :: "nat \<Rightarrow> string" where
  "str n = (if n < 10 then [digit_char n] else str (n div 10) @ [digit_char (n mod 10)])"
  by pat_completeness auto
termination
  by (relation "measure id") auto

declare str.simps [simp del]


section \<open>Documents, worksheets and files\<close>

text \<open>
  A cell value of an extracted table is a text or \<open>None\<close>; a row is a list of cells and a
  table a list of rows. \<open>page.extract_table()\<close> raises, or returns \<open>None\<close>, or a table.
\<close>

type_synonym cell = "string option"
type_synonym row = "cell list"

datatype page = ExtractRaises | Extracted "row list option"

text \<open>
  What \<open>pdfplumber\<close> can return for a page. It builds each row of a table from the
  cells it found on that line, so a row has at least one cell of its own; such a cell
  is rendered as its text, the empty text when it holds none, and \<open>None\<close> only fills
  the columns in which the row has no cell.
\<close>

definition receivable :: "page \<Rightarrow> bool" where
  "receivable p =
     (case p of
        ExtractRaises \<Rightarrow> True
      | Extracted None \<Rightarrow> True
      | Extracted (Some t) \<Rightarrow> list_all (\<lambda>r. list_ex (\<lambda>c. c \<noteq> None) r) t)"

text \<open>
  The worksheet of \<open>openpyxl\<close>: its cells by (row, column), both counted from 1, and the
  index of the last row appended. \<open>ws.append(row)\<close> creates one cell for every element of
  the row, also for \<open>None\<close>, in the row after the current one; a text is cut after
  its first 32767 characters. \<open>ws.max_row\<close> is the largest row index among the cells,
  and 1 on a sheet with no cell. \<open>ws[1]\<close> is row 1 from the first to the last used
  column, a missing cell reading \<open>None\<close>.
\<close>

record worksheet =
  cells :: "((nat \<times> nat) \<times> cell) list"
  current_row :: nat

definition Workbook :: worksheet where
  "Workbook = \<lparr>cells = [], current_row = 0\<rparr>"

definition check_string :: "cell \<Rightarrow> cell" where
  "check_string v = map_option (take 32767) v"

definition ws_append :: "worksheet \<Rightarrow> row \<Rightarrow> worksheet" where
  "ws_append ws r =
     \<lparr>cells = cells ws
        @ map (\<lambda>(j, v). ((current_row ws + 1, j + 1), check_string v)) (enumerate 0 r),
      current_row = current_row ws + 1\<rparr>"

definition max_row :: "worksheet \<Rightarrow> nat" where
  "max_row ws = (if cells ws = [] then 1 else fold max (map (fst \<circ> fst) (cells ws)) 0)"

definition row1_all_none :: "worksheet \<Rightarrow> bool" where
  "row1_all_none ws = list_all (\<lambda>kv. snd kv = None) (filter (\<lambda>kv. fst (fst kv) = 1) (cells ws))"

text \<open>What a path of \<open>/tmp\<close> holds: a PDF with its pages, a saved workbook, or other bytes.\<close>

datatype stored = Pdf "page list" | Xlsx worksheet | Garbage

section \<open>Limits\<close>

definition MAX_PAGES :: nat where
  "MAX_PAGES = 3000"

definition MAX_FILE_SIZE_BYTES :: nat where
  "MAX_FILE_SIZE_BYTES = 20 * 1024 * 1024"

definition PROGRESS_STEPS :: nat where
  "PROGRESS_STEPS = 10"

section \<open>The shared state and the upload handler of app.py\<close>

text \<open>
  A job is what \<open>handle_pdf\<close> hands to the background thread: the arguments of
  \<open>process_pdf_async\<close>, the cancel event being named by a number of its own.
  \<open>active_jobs\<close> is the dictionary from chat to job, \<open>files\<close> the directory \<open>/tmp\<close>,
  \<open>threads\<close> the threads started so far and \<open>replies\<close> the texts sent with
  \<open>reply_text\<close>, oldest first.
\<close>

record job =
  job_chat_id :: int
  status_message_id :: nat
  pdf_path :: string
  excel_path :: string
  cancel_event :: nat

datatype reply =
    PleaseUploadPdf
  | TooLarge nat
  | AlreadyRunning
  | DownloadFailed
  | StartingProcessing

record sys =
  active_jobs :: "int \<rightharpoonup> job"
  files :: "string \<rightharpoonup> stored"
  threads :: "job list"
  replies :: "(int \<times> reply) list"
  next_id :: nat

text \<open>
  An update carrying a document: the chat, the declared name and size, and what
  \<open>document.get_file().download\<close> delivers (\<open>None\<close>: the download raises).
\<close>

record update =
  chat_id :: int
  file_name :: string
  file_size :: "nat option"
  remote_file :: "stored option"

definition reply_text :: "sys \<Rightarrow> int \<Rightarrow> reply \<Rightarrow> sys" where
  "reply_text s c r = s\<lparr>replies := replies s @ [(c, r)]\<rparr>"

definition source_path :: "string \<Rightarrow> string" where
  "source_path name = ''/tmp/'' @ name"

definition output_path :: "string \<Rightarrow> string" where
  "output_path name = replace (source_path name) ''.pdf'' ''.xlsx''"

text \<open>
  \<open>handle_pdf\<close> runs in three sections. The first applies the two filters and looks the
  chat up under \<open>jobs_lock\<close>; the second, outside the lock, downloads the file and posts
  the status message; the third takes the lock again, stores the job and starts the
  thread. A handler is at one of these points, or has returned. The calls of
  \<open>reply_text\<close> are taken to be delivered; \<open>stop\<close>, which sets the cancel event of the
  job found in the registry, appears in the worker as what \<open>is_set\<close> answers.
\<close>

datatype handler =
    Arrived update
  | Admitted update
  | Downloaded job
  | Returned

definition size_exceeded :: "nat option \<Rightarrow> bool" where
  "size_exceeded sz = (case sz of None \<Rightarrow> False | Some n \<Rightarrow> n \<noteq> 0 \<and> n > MAX_FILE_SIZE_BYTES)"

fun step :: "sys \<Rightarrow> handler \<Rightarrow> sys \<times> handler" where
  "step s (Arrived u) =
     (if \<not> endswith (lower (file_name u)) ''.pdf''
        then (reply_text s (chat_id u) PleaseUploadPdf, Returned)
      else if size_exceeded (file_size u)
        then (reply_text s (chat_id u) (TooLarge (MAX_FILE_SIZE_BYTES div (1024 * 1024))), Returned)
      else if active_jobs s (chat_id u) \<noteq> None
        then (reply_text s (chat_id u) AlreadyRunning, Returned)
      else (s, Admitted u))"
| "step s (Admitted u) =
     (case remote_file u of
        None \<Rightarrow> (reply_text s (chat_id u) DownloadFailed, Returned)
      | Some f \<Rightarrow>
          (let s1 = s\<lparr>files := (files s)(source_path (file_name u) \<mapsto> f)\<rparr>;
               s2 = reply_text s1 (chat_id u) StartingProcessing;
               j = \<lparr>job_chat_id = chat_id u, status_message_id = next_id s2,
                    pdf_path = source_path (file_name u),
                    excel_path = output_path (file_name u),
                    cancel_event = next_id s2 + 1\<rparr>
           in (s2\<lparr>next_id := next_id s2 + 2\<rparr>, Downloaded j)))"
| "step s (Downloaded j) =
     (s\<lparr>active_jobs := (active_jobs s)(job_chat_id j \<mapsto> j), threads := threads s @ [j]\<rparr>,
      Returned)"
| "step s Returned = (s, Returned)"

text \<open>One call of \<open>handle_pdf\<close> with no other handler running in between.\<close>

definition handle_pdf :: "sys \<Rightarrow> update \<Rightarrow> sys" where
  "handle_pdf s u =
     (let (s1, h1) = step s (Arrived u); (s2, h2) = step s1 h1; (s3, h3) = step s2 h2 in s3)"

text \<open>
  Handlers running in parallel: the schedule names, one after the other, the handler
  whose next section runs. A section is atomic: the first and the third hold the lock,
  the second touches nothing shared but the directory.
\<close>

fun interleave :: "sys \<Rightarrow> handler list \<Rightarrow> nat list \<Rightarrow> sys \<times> handler list" where
  "interleave s hs [] = (s, hs)"
| "interleave s hs (i # sched) =
     (if i < length hs
        then (let (s', h') = step s (hs ! i) in interleave s' (hs[i := h']) sched)
      else interleave s hs sched)"

section \<open>The background worker of app.py\<close>

text \<open>
  What the worker sends through the bot: the edits of the status message, and the
  document. \<open>text_of\<close> gives the text of an edit and the caption of the document; a
  character outside ASCII is written as the bytes of its UTF-8 encoding.
\<close>

datatype notification =
    Processing
  | EmptyPdf
  | CancelledAt nat nat
  | Progress nat nat nat
  | NoTables
  | Complete
  | Document string stored
  | ErrorOccurred

definition ellipsis :: string where
  "ellipsis = [CHR 0xE2, CHR 0x80, CHR 0xA6]"

definition hourglass :: string where
  "hourglass = [CHR 0xE2, CHR 0x8F, CHR 0xB3]"

definition warning_sign :: string where
  "warning_sign = [CHR 0xE2, CHR 0x9A, CHR 0xA0, CHR 0xEF, CHR 0xB8, CHR 0x8F]"

definition cross_mark :: string where
  "cross_mark = [CHR 0xE2, CHR 0x9D, CHR 0x8C]"

definition check_mark :: string where
  "check_mark = [CHR 0xE2, CHR 0x9C, CHR 0x85]"

definition smiling_face :: string where
  "smiling_face = [CHR 0xF0, CHR 0x9F, CHR 0x98, CHR 0x8A]"

fun text_of :: "notification \<Rightarrow> string" where
  "text_of Processing = ''Processing your PDF'' @ ellipsis @ '' '' @ hourglass"
| "text_of EmptyPdf = warning_sign @ '' This PDF seems to be empty.''"
| "text_of (CancelledAt i tot) =
     cross_mark @ '' Conversion cancelled at page '' @ str i @ ''/'' @ str tot @ ''.''"
| "text_of (Progress percent page_num tot) =
     ''Processing'' @ ellipsis @ '' '' @ str percent @ ''% done '' @ hourglass @ '' (''
       @ str page_num @ ''/'' @ str tot @ '' pages)''"
| "text_of NoTables =
     warning_sign @ '' I couldn'' @ [CHR 0x27] @ ''t detect any tables in this PDF.''"
| "text_of Complete =
     check_mark @ '' Conversion complete! Sending your Excel file'' @ ellipsis"
| "text_of (Document name f) = ''Here is your converted Excel file '' @ smiling_face"
| "text_of ErrorOccurred =
     cross_mark @ '' An error occurred while converting your PDF. Please try again later.''"

text \<open>
  The surroundings of one run, fixed in advance: whether the n-th call of the bot by this
  worker raises (calls counted from 0), what \<open>cancel_event.is_set()\<close> answers at the top
  of iteration \<open>i\<close>, whether \<open>ws.append\<close> raises on a row, whether \<open>wb.save\<close> raises, and
  whether \<open>os.remove\<close> raises on a path.
\<close>

record env =
  bot_raises :: "nat \<Rightarrow> bool"
  is_set :: "nat \<Rightarrow> bool"
  append_raises :: "row \<Rightarrow> bool"
  save_raises :: bool
  remove_raises :: "string \<Rightarrow> bool"

text \<open>
  The worker's own state: the worksheet, the calls of the bot so far, each with whether
  it was delivered, and the number of pages handed to \<open>extract_table\<close>.
\<close>

record run =
  ws :: worksheet
  log :: "(notification \<times> bool) list"
  units :: nat

text \<open>A call of the bot is recorded; the result says whether it raised.\<close>

definition bot_call :: "env \<Rightarrow> run \<Rightarrow> notification \<Rightarrow> bool \<times> run" where
  "bot_call e r m =
     (bot_raises e (length (log r)), r\<lparr>log := log r @ [(m, \<not> bot_raises e (length (log r)))]\<rparr>)"

text \<open>
  How a run ends. Python returns \<open>None\<close> from every exit; the outcome names the exit
  taken: the end of the function, the return in the loop, the return on an empty
  document or on an empty sheet, or the \<open>except\<close> clause.
\<close>

datatype failure = EmptyDocument | NoTableDetected | UnexpectedFault

datatype outcome = Completed | Cancelled nat | Failed failure

datatype control = Next | Return outcome | Raise

text \<open>\<open>for row in table: ws.append(row)\<close>; \<open>None\<close> when an append raises.\<close>

fun append_rows :: "env \<Rightarrow> worksheet \<Rightarrow> row list \<Rightarrow> worksheet option" where
  "append_rows e w [] = Some w"
| "append_rows e w (r # rs) =
     (if append_raises e r then None else append_rows e (ws_append w r) rs)"

definition extract_table :: "page \<Rightarrow> row list option" where
  "extract_table p = (case p of ExtractRaises \<Rightarrow> None | Extracted t \<Rightarrow> t)"

definition percent_of :: "nat \<Rightarrow> nat \<Rightarrow> nat" where
  "percent_of page_num tot = page_num * 100 div tot"

text \<open>
  The loop \<open>for i in range(total_pages_to_process)\<close>, on the pages still to come. An
  exception of \<open>extract_table\<close> is caught and leaves no table; a table that is \<open>None\<close> or
  empty appends nothing. \<open>int(page_num * 100 / tot)\<close> is the integer quotient: the
  operands are at most 300000, where the floating quotient truncates to it.
\<close>

fun page_loop :: "env \<Rightarrow> nat \<Rightarrow> nat \<Rightarrow> nat \<Rightarrow> page list \<Rightarrow> run \<Rightarrow> control \<times> run" where
  "page_loop e tot stp i [] r = (Next, r)"
| "page_loop e tot stp i (p # ps) r =
     (if is_set e i then
        (let (raised, r') = bot_call e r (CancelledAt i tot)
         in (if raised then Raise else Return (Cancelled i), r'))
      else
        (let page_num = i + 1;
             r1 = r\<lparr>units := units r + 1\<rparr>;
             rows = (case extract_table p of None \<Rightarrow> [] | Some t \<Rightarrow> t)
         in case append_rows e (ws r1) rows of
              None \<Rightarrow> (Raise, r1)
            | Some w \<Rightarrow>
                (let r2 = r1\<lparr>ws := w\<rparr>;
                     r3 = (if page_num mod stp = 0 \<or> page_num = tot
                           then snd (bot_call e r2 (Progress (percent_of page_num tot) page_num tot))
                           else r2)
                 in page_loop e tot stp (i + 1) ps r3)))"

text \<open>
  The body of the \<open>try\<close> from the page count on: the pages are those of the opened PDF,
  \<open>fs\<close> is the directory; the workbook is saved into it.
\<close>

definition convert ::
  "env \<Rightarrow> job \<Rightarrow> page list \<Rightarrow> (string \<rightharpoonup> stored) \<Rightarrow> run \<Rightarrow> control \<times> run \<times> (string \<rightharpoonup> stored)" where
  "convert e j pages fs r =
     (let total_pages = length pages in
      if total_pages = 0 then
        (let (raised, r') = bot_call e r EmptyPdf
         in (if raised then Raise else Return (Failed EmptyDocument), r', fs))
      else
        (let total_pages_to_process = min total_pages MAX_PAGES;
             stp = max 1 (total_pages_to_process div PROGRESS_STEPS)
         in case page_loop e total_pages_to_process stp 0 (take total_pages_to_process pages) r of
              (Return oc, r1) \<Rightarrow> (Return oc, r1, fs)
            | (Raise, r1) \<Rightarrow> (Raise, r1, fs)
            | (Next, r1) \<Rightarrow>
                if max_row (ws r1) = 1 \<and> row1_all_none (ws r1) then
                  (let (raised, r2) = bot_call e r1 NoTables
                   in (if raised then Raise else Return (Failed NoTableDetected), r2, fs))
                else if save_raises e then (Raise, r1, fs)
                else
                  (let fs1 = fs(excel_path j \<mapsto> Xlsx (ws r1));
                       (raised, r2) = bot_call e r1 Complete
                   in if raised then (Raise, r2, fs1)
                      else
                        (let (raised', r3) =
                               bot_call e r2 (Document (basename (excel_path j)) (Xlsx (ws r1)))
                         in (if raised' then Raise else Return Completed, r3, fs1)))))"

text \<open>The whole \<open>try\<close> block: the first edit, the new workbook, opening the PDF.\<close>

definition try_block ::
  "env \<Rightarrow> job \<Rightarrow> (string \<rightharpoonup> stored) \<Rightarrow> control \<times> run \<times> (string \<rightharpoonup> stored)" where
  "try_block e j fs =
     (let (raised, r) = bot_call e \<lparr>ws = Workbook, log = [], units = 0\<rparr> Processing in
      if raised then (Raise, r, fs)
      else case fs (pdf_path j) of
             Some (Pdf pages) \<Rightarrow> convert e j pages fs r
           | _ \<Rightarrow> (Raise, r, fs))"

text \<open>
  The \<open>finally\<close> clause on the directory: one \<open>try\<close> around both removals, so an
  exception of the first skips the second.
\<close>

definition remove_temp_files ::
  "env \<Rightarrow> string \<Rightarrow> string \<Rightarrow> (string \<rightharpoonup> stored) \<Rightarrow> (string \<rightharpoonup> stored)" where
  "remove_temp_files e p x fs =
     (if fs p \<noteq> None \<and> remove_raises e p then fs
      else (let fs1 = (if fs p \<noteq> None then fs(p := None) else fs)
            in if fs1 x \<noteq> None \<and> \<not> remove_raises e x then fs1(x := None) else fs1))"

record result =
  outcome :: outcome
  final :: run
  after :: sys

definition process_pdf_async :: "env \<Rightarrow> job \<Rightarrow> sys \<Rightarrow> result" where
  "process_pdf_async e j s =
     (let (c, r, fs) = try_block e j (files s);
          (oc, r') = (case c of
                        Return oc \<Rightarrow> (oc, r)
                      | _ \<Rightarrow> (Failed UnexpectedFault, snd (bot_call e r ErrorOccurred)))
      in \<lparr>outcome = oc, final = r',
          after = s\<lparr>active_jobs := (active_jobs s)(job_chat_id j := None),
                    files := remove_temp_files e (pdf_path j) (excel_path j) fs\<rparr>\<rparr>)"


section \<open>The handler of Bot.py\<close>

text \<open>
  \<open>handle_document\<close> converts in the handler itself: no registry, no thread, no
  cancellation, and no \<open>try\<close>, so an exception of the download, of \<open>pdfplumber\<close> or of
  \<open>extract_table\<close> leaves the handler. The model follows it to the point where it either
  answers that it found no table or goes on to write the rows to \<open>xlsx_path\<close> with
  pandas and to send the file; the writing itself is not modelled.
\<close>

datatype bot_result =
    BotPleaseSendPdf
  | BotRaised
  | BotNoTables
  | BotWrites string "row list"

fun all_rows :: "page list \<Rightarrow> row list \<Rightarrow> row list option" where
  "all_rows [] acc = Some acc"
| "all_rows (ExtractRaises # ps) acc = None"
| "all_rows (Extracted t # ps) acc =
     all_rows ps (case t of None \<Rightarrow> acc | Some rows \<Rightarrow> if rows = [] then acc else acc @ rows)"

definition handle_document :: "string \<Rightarrow> stored option \<Rightarrow> bot_result" where
  "handle_document name remote =
     (if \<not> endswith (lower name) ''.pdf'' then BotPleaseSendPdf
      else case remote of
             Some (Pdf pages) \<Rightarrow>
               (case all_rows pages [] of
                  None \<Rightarrow> BotRaised
                | Some rows \<Rightarrow>
                    if rows = [] then BotNoTables
                    else BotWrites (replace (''/tmp/'' @ name) ''.pdf'' ''.xlsx'') rows)
           | _ \<Rightarrow> BotRaised)"

section \<open>The greeting of app.py\<close>

text \<open>What \<open>start\<close> answers to \<open>/start\<close>, sent as Markdown.\<close>

definition start_text :: string where
  "start_text =
     ''Hi! '' @ [CHR 0xF0, CHR 0x9F, CHR 0x91, CHR 0x8B, CHR 0x0A, CHR 0x0A]
     @ ''Send me a *PDF with tables* and I'' @ [CHR 0xE2, CHR 0x80, CHR 0x99]
     @ ''ll convert it to Excel '' @ [CHR 0xF0, CHR 0x9F, CHR 0x93, CHR 0x8A, CHR 0x0A]
     @ ''You can send /stop to cancel a running conversion.'' @ [CHR 0x0A, CHR 0x0A]
     @ ''_Note: very large PDFs may be partially processed due to server limits._''"

section \<open>What a client observes of a run\<close>

text \<open>
  The progress reports in a log, each as its percentage and its page number, in the
  order of issue; those of them that were delivered; and the message that is the
  terminal notification of an outcome.
\<close>

fun progress_of :: "notification \<times> bool \<Rightarrow> (nat \<times> nat) option" where
  "progress_of (Progress percent page_num tot, d) = Some (percent, page_num)"
| "progress_of (m, d) = None"

definition reports :: "(notification \<times> bool) list \<Rightarrow> (nat \<times> nat) list" where
  "reports lg = List.map_filter progress_of lg"

definition displayed :: "(notification \<times> bool) list \<Rightarrow> (nat \<times> nat) list" where
  "displayed lg = reports (filter snd lg)"

fun terminal_for :: "outcome \<Rightarrow> notification \<Rightarrow> bool" where
  "terminal_for Completed (Document name f) = True"
| "terminal_for (Cancelled k) (CancelledAt i tot) = (i = k)"
| "terminal_for (Failed EmptyDocument) EmptyPdf = True"
| "terminal_for (Failed NoTableDetected) NoTables = True"
| "terminal_for (Failed UnexpectedFault) ErrorOccurred = True"
| "terminal_for oc m = False"

text \<open>
  The reports of a log are in order up to page \<open>i\<close>: page numbers increase strictly,
  none exceeds \<open>i\<close>, and each percentage is the one computed from its page number.
\<close>

definition ordered_upto :: "nat \<Rightarrow> nat \<Rightarrow> (notification \<times> bool) list \<Rightarrow> bool" where
  "ordered_upto tot i lg =
     (sorted_wrt (<) (map snd (reports lg))
      \<and> list_all (\<lambda>x. snd x \<le> i \<and> fst x = percent_of (snd x) tot) (reports lg))"

text \<open>The calls of \<open>send_document\<close> in a log.\<close>

fun is_document :: "notification \<Rightarrow> bool" where
  "is_document (Document name f) = True"
| "is_document m = False"

definition sent_documents :: "(notification \<times> bool) list \<Rightarrow> (notification \<times> bool) list" where
  "sent_documents lg = filter (\<lambda>x. is_document (fst x)) lg"

text \<open>
  The page total a message shows, for the messages that show one; and a log all of
  whose totals are \<open>n\<close>.
\<close>

fun shown_total :: "notification \<Rightarrow> nat option" where
  "shown_total (Progress percent page_num tot) = Some tot"
| "shown_total (CancelledAt i tot) = Some tot"
| "shown_total m = None"

definition shows_total :: "nat \<Rightarrow> (notification \<times> bool) list \<Rightarrow> bool" where
  "shows_total n lg =
     list_all (\<lambda>x. case shown_total (fst x) of None \<Rightarrow> True | Some t \<Rightarrow> t = n) lg"

text \<open>The rows the extractor yields on a list of pages, in order.\<close>

definition rows_of :: "page list \<Rightarrow> row list" where
  "rows_of ps = concat (map (\<lambda>p. case extract_table p of None \<Rightarrow> [] | Some t \<Rightarrow> t) ps)"

text \<open>The sheet after \<open>ws.append\<close> of each row of a list.\<close>

definition append_all :: "worksheet \<Rightarrow> row list \<Rightarrow> worksheet" where
  "append_all w rows = fold (\<lambda>r w. ws_append w r) rows w"

text \<open>The number of pages a job will process, read from the stored PDF.\<close>

definition tot_of :: "job \<Rightarrow> (string \<rightharpoonup> stored) \<Rightarrow> nat" where
  "tot_of j fs =
     (case fs (pdf_path j) of Some (Pdf pages) \<Rightarrow> min (length pages) MAX_PAGES | _ \<Rightarrow> 0)"

section \<open>Replacement as the specification words it\<close>

text \<open>
  Replacing the first occurrence only, which is what \<open>s.replace(old, new, 1)\<close> would
  do; the handlers do not call it.
\<close>

fun replace_first :: "string \<Rightarrow> string \<Rightarrow> string \<Rightarrow> string" where
  "replace_first [] old new = (if old = [] then new else [])"
| "replace_first (c # cs) old new =
     (if take (length old) (c # cs) = old then new @ drop (length old) (c # cs)
      else c # replace_first cs old new)"

section \<open>Example inputs\<close>

definition sys0 :: sys where
  "sys0 = \<lparr>active_jobs = Map.empty, files = Map.empty, threads = [], replies = [], next_id = 0\<rparr>"

definition table_page :: page where
  "table_page = Extracted (Some [[Some ''x'', None]])"

definition blank_page :: page where
  "blank_page = Extracted None"

definition upload :: "int \<Rightarrow> string \<Rightarrow> nat \<Rightarrow> update" where
  "upload c name n =
     \<lparr>chat_id = c, file_name = name, file_size = Some n, remote_file = Some (Pdf [table_page])\<rparr>"

definition calm :: env where
  "calm = \<lparr>bot_raises = (\<lambda>n. False), is_set = (\<lambda>i. False), append_raises = (\<lambda>r. False),
           save_raises = False, remove_raises = (\<lambda>p. False)\<rparr>"

definition job_for :: "int \<Rightarrow> string \<Rightarrow> job" where
  "job_for c name =
     \<lparr>job_chat_id = c, status_message_id = 0, pdf_path = source_path name,
      excel_path = output_path name, cancel_event = 1\<rparr>"

definition tmp_with :: "string \<Rightarrow> page list \<Rightarrow> (string \<rightharpoonup> stored)" where
  "tmp_with name pages = [source_path name \<mapsto> Pdf pages]"

definition sys_with :: "int \<Rightarrow> string \<Rightarrow> page list \<Rightarrow> sys" where
  "sys_with c name pages =
     \<lparr>active_jobs = [c \<mapsto> job_for c name], files = tmp_with name pages,
      threads = [job_for c name], replies = [(c, StartingProcessing)], next_id = 2\<rparr>"

text \<open>
  The scenario of the specification: 25 pages, tables on pages 1 to 10 and 20 to 25.
  In \<open>cancel_after n\<close> the event is found set from the check at the top of iteration \<open>n\<close>
  on, which is the check between page \<open>n\<close> and page \<open>n + 1\<close>.
\<close>

definition scenario_pages :: "page list" where
  "scenario_pages = map (\<lambda>i. if i < 10 \<or> 19 \<le> i then table_page else blank_page) [0..<25]"

definition cancel_after :: "nat \<Rightarrow> env" where
  "cancel_after n = calm\<lparr>is_set := (\<lambda>i. n \<le> i)\<rparr>"

definition stuck_source :: env where
  "stuck_source = calm\<lparr>remove_raises := (\<lambda>p. p = ''/tmp/a.pdf'')\<rparr>"

definition failing_append :: env where
  "failing_append = calm\<lparr>append_raises := (\<lambda>r. True), bot_raises := (\<lambda>n. 0 < n)\<rparr>"

section \<open>Admission\<close>

lemma step_arrived_oversized:
  assumes "file_size u = Some n" and "MAX_FILE_SIZE_BYTES < n"
  shows "step s (Arrived u) =
           (reply_text s (chat_id u)
              (if endswith (lower (file_name u)) ''.pdf'' then TooLarge 20 else PleaseUploadPdf),
            Returned)"
  using assms by (simp add: size_exceeded_def MAX_FILE_SIZE_BYTES_def)

lemma handle_pdf_rejected:
  assumes "step s (Arrived u) = (s', Returned)"
  shows "handle_pdf s u = s'"
  using assms by (simp add: handle_pdf_def)

text \<open>
  C7, as amended. An upload whose declared size exceeds the limit of 20 MiB is turned
  away by the first section of the handler: the only change of the state is one reply,
  no job is stored, no thread is started, nothing is downloaded. The reply is the size
  notice when the name passes the filter on \<open>.pdf\<close>, which is applied first, and the
  request for a PDF otherwise.
\<close>

theorem oversized_upload_rejected:
  assumes "file_size u = Some n" and "MAX_FILE_SIZE_BYTES < n"
  shows "handle_pdf s u =
           s\<lparr>replies := replies s @
              [(chat_id u,
                if endswith (lower (file_name u)) ''.pdf'' then TooLarge 20 else PleaseUploadPdf)]\<rparr>
         \<and> active_jobs (handle_pdf s u) = active_jobs s
         \<and> files (handle_pdf s u) = files s
         \<and> threads (handle_pdf s u) = threads s"
proof -
  have eq: "handle_pdf s u =
           s\<lparr>replies := replies s @
              [(chat_id u,
                if endswith (lower (file_name u)) ''.pdf'' then TooLarge 20 else PleaseUploadPdf)]\<rparr>"
    using handle_pdf_rejected [OF step_arrived_oversized [OF assms]]
    by (simp add: reply_text_def)
  have "active_jobs (handle_pdf s u) = active_jobs s"
    and "files (handle_pdf s u) = files s"
    and "threads (handle_pdf s u) = threads s"
    by (simp_all add: eq)
  with eq show ?thesis by simp
qed

lemma ends_big: "endswith (lower ''big.pdf'') ''.pdf''"
  by code_simp

theorem oversized_upload_rejected_witness:
  "file_size (upload 7 ''big.pdf'' 30000000) = Some 30000000
   \<and> MAX_FILE_SIZE_BYTES < 30000000
   \<and> replies (handle_pdf sys0 (upload 7 ''big.pdf'' 30000000)) = [(7, TooLarge 20)]
   \<and> threads (handle_pdf sys0 (upload 7 ''big.pdf'' 30000000)) = []"
proof -
  have a: "file_size (upload 7 ''big.pdf'' 30000000) = Some 30000000"
    by (simp add: upload_def)
  have b: "MAX_FILE_SIZE_BYTES < 30000000"
    by (simp add: MAX_FILE_SIZE_BYTES_def)
  have n: "file_name (upload 7 ''big.pdf'' 30000000) = ''big.pdf''"
    and c: "chat_id (upload 7 ''big.pdf'' 30000000) = 7"
    by (simp_all add: upload_def)
  have r: "replies sys0 = []" and t: "threads sys0 = []"
    by (simp_all add: sys0_def)
  note th = oversized_upload_rejected [OF a b, of sys0]
  have "replies (handle_pdf sys0 (upload 7 ''big.pdf'' 30000000)) = [(7, TooLarge 20)]"
    by (subst conjunct1 [OF th]) (simp add: n c r ends_big)
  moreover have "threads (handle_pdf sys0 (upload 7 ''big.pdf'' 30000000)) = []"
    using th t by simp
  ultimately show ?thesis using a b by simp
qed

text \<open>
  The claim as worded fails on an oversized upload whose name does not end in \<open>.pdf\<close>:
  the reply is the request for a PDF, not the size notice.
\<close>

lemma not_ends_txt: "\<not> endswith (lower ''notes.txt'') ''.pdf''"
  by code_simp

theorem oversized_txt_counterexample:
  "file_size (upload 7 ''notes.txt'' 30000000) = Some 30000000
   \<and> MAX_FILE_SIZE_BYTES < 30000000
   \<and> replies (handle_pdf sys0 (upload 7 ''notes.txt'' 30000000)) = [(7, PleaseUploadPdf)]"
  by (simp add: handle_pdf_def upload_def not_ends_txt reply_text_def sys0_def
        MAX_FILE_SIZE_BYTES_def)

section \<open>Paths of the artifacts\<close>

lemma step_admitted_job:
  assumes "snd (step s (Admitted u)) = Downloaded j"
  shows "pdf_path j = source_path (file_name u) \<and> excel_path j = output_path (file_name u)
         \<and> job_chat_id j = chat_id u"
  using assms by (auto simp: Let_def split: option.splits)

text \<open>
  C4, as amended. The paths of a job come from the uploaded file name alone: the source
  path is \<open>/tmp/\<close> followed by the name, the output path is the source path with \<open>.pdf\<close>
  replaced by \<open>.xlsx\<close>, and neither depends on the chat or on a generated token. So two
  jobs have different source paths exactly when their file names differ, and two jobs
  with the same file name share both paths, whoever their clients are.
\<close>

theorem job_paths_from_file_name:
  assumes "snd (step s (Admitted u)) = Downloaded j"
      and "snd (step t (Admitted v)) = Downloaded k"
  shows "pdf_path j = ''/tmp/'' @ file_name u
         \<and> excel_path j = replace (pdf_path j) ''.pdf'' ''.xlsx''
         \<and> (pdf_path j = pdf_path k \<longleftrightarrow> file_name u = file_name v)
         \<and> (file_name u = file_name v \<longrightarrow> excel_path j = excel_path k)"
  using step_admitted_job [OF assms(1)] step_admitted_job [OF assms(2)]
  by (simp add: source_path_def output_path_def)

lemma ends_report: "endswith (lower ''report.pdf'') ''.pdf''"
  by code_simp

lemma small_size: "\<not> size_exceeded (Some 1000)"
  by (simp add: size_exceeded_def MAX_FILE_SIZE_BYTES_def)

lemma out_report: "output_path ''report.pdf'' = ''/tmp/report.xlsx''"
  by (simp add: output_path_def source_path_def)

theorem job_paths_from_file_name_witness:
  "snd (step sys0 (Admitted (upload 7 ''report.pdf'' 1000))) = Downloaded (job_for 7 ''report.pdf'')
   \<and> snd (step sys0 (Admitted (upload 8 ''report.pdf'' 1000))) = Downloaded (job_for 8 ''report.pdf'')
   \<and> pdf_path (job_for 7 ''report.pdf'') = pdf_path (job_for 8 ''report.pdf'')
   \<and> excel_path (job_for 7 ''report.pdf'') = excel_path (job_for 8 ''report.pdf'')"
proof -
  have a: "snd (step sys0 (Admitted (upload 7 ''report.pdf'' 1000))) = Downloaded (job_for 7 ''report.pdf'')"
    by (simp add: upload_def sys0_def job_for_def reply_text_def)
  have b: "snd (step sys0 (Admitted (upload 8 ''report.pdf'' 1000))) = Downloaded (job_for 8 ''report.pdf'')"
    by (simp add: upload_def sys0_def job_for_def reply_text_def)
  have n: "file_name (upload 7 ''report.pdf'' 1000) = file_name (upload 8 ''report.pdf'' 1000)"
    by (simp add: upload_def)
  from job_paths_from_file_name [OF a b] n
  have "pdf_path (job_for 7 ''report.pdf'') = pdf_path (job_for 8 ''report.pdf'')
        \<and> excel_path (job_for 7 ''report.pdf'') = excel_path (job_for 8 ''report.pdf'')"
    by blast
  with a b show ?thesis by blast
qed

text \<open>
  The claim as worded fails: chats 7 and 8 upload a file of the same name one after the
  other, both are admitted and both are in the registry, and their jobs have the same
  source path and the same output path.
\<close>

theorem shared_paths_counterexample:
  "map job_chat_id (threads (handle_pdf (handle_pdf sys0 (upload 7 ''report.pdf'' 1000))
                                        (upload 8 ''report.pdf'' 1000))) = [7, 8]
   \<and> map pdf_path (threads (handle_pdf (handle_pdf sys0 (upload 7 ''report.pdf'' 1000))
                                        (upload 8 ''report.pdf'' 1000)))
       = [''/tmp/report.pdf'', ''/tmp/report.pdf'']
   \<and> map excel_path (threads (handle_pdf (handle_pdf sys0 (upload 7 ''report.pdf'' 1000))
                                        (upload 8 ''report.pdf'' 1000)))
       = [''/tmp/report.xlsx'', ''/tmp/report.xlsx'']
   \<and> active_jobs (handle_pdf (handle_pdf sys0 (upload 7 ''report.pdf'' 1000))
                                        (upload 8 ''report.pdf'' 1000)) 7 \<noteq> None
   \<and> active_jobs (handle_pdf (handle_pdf sys0 (upload 7 ''report.pdf'' 1000))
                                        (upload 8 ''report.pdf'' 1000)) 8 \<noteq> None"
  by (simp add: handle_pdf_def upload_def sys0_def reply_text_def ends_report small_size
        out_report source_path_def)

section \<open>Names without a lower-case extension\<close>

lemma replace_no_occurrence:
  "old \<noteq> [] \<Longrightarrow> \<not> contains s old \<Longrightarrow> replace s old new = s"
  by (induction s) auto

lemma contains_tmp: "contains (''/tmp/'' @ name) ''.pdf'' = contains name ''.pdf''"
  by simp

lemma basename_no_slash: "CHR ''/'' \<notin> set name \<Longrightarrow> basename (''/tmp/'' @ name) = name"
  by (cases name) auto

lemma output_eq_source:
  "\<not> contains name ''.pdf'' \<Longrightarrow> output_path name = source_path name"
  unfolding output_path_def source_path_def
  by (rule replace_no_occurrence) (simp_all)

lemma bot_call_simps [simp]:
  "fst (bot_call e r m) = bot_raises e (length (log r))"
  "ws (snd (bot_call e r m)) = ws r"
  "units (snd (bot_call e r m)) = units r"
  "log (snd (bot_call e r m)) = log r @ [(m, \<not> bot_raises e (length (log r)))]"
  by (simp_all add: bot_call_def)

lemma page_loop_return:
  "page_loop e tot stp i ps r = (Return oc, r') \<Longrightarrow> \<exists>k. oc = Cancelled k \<and> i \<le> k \<and> k < i + length ps"
proof (induction ps arbitrary: i r)
  case Nil
  then show ?case by simp
next
  case (Cons p ps)
  show ?case
  proof (cases "is_set e i")
    case True
    with Cons.prems show ?thesis
      by (auto simp: bot_call_def split: if_splits)
  next
    case False
    with Cons.prems obtain r3 where "page_loop e tot stp (i + 1) ps r3 = (Return oc, r')"
      by (auto simp: Let_def split: option.splits)
    from Cons.IH [OF this] show ?thesis by auto
  qed
qed

lemma convert_completed:
  assumes "fst (convert e j pages fs r) = Return Completed"
  shows "snd (snd (convert e j pages fs r)) (excel_path j)
           = Some (Xlsx (ws (fst (snd (convert e j pages fs r)))))
         \<and> fst (last (log (fst (snd (convert e j pages fs r)))))
           = Document (basename (excel_path j)) (Xlsx (ws (fst (snd (convert e j pages fs r)))))"
proof -
  let ?n = "min (length pages) MAX_PAGES"
  obtain c r1 where pl:
    "page_loop e ?n (max 1 (?n div PROGRESS_STEPS)) 0 (take ?n pages) r = (c, r1)"
    by (cases "page_loop e ?n (max 1 (?n div PROGRESS_STEPS)) 0 (take ?n pages) r")
  show ?thesis
  proof (cases c)
    case Next
    with pl assms show ?thesis
      by (auto simp: convert_def Let_def bot_call_def split: if_splits)
  next
    case (Return oc)
    with pl page_loop_return [of e ?n _ 0 _ r oc r1] assms show ?thesis
      by (auto simp: convert_def Let_def bot_call_def split: if_splits)
  next
    case Raise
    with pl assms show ?thesis
      by (auto simp: convert_def Let_def bot_call_def split: if_splits)
  qed
qed

lemma try_block_completed:
  assumes "fst (try_block e j fs) = Return Completed"
  shows "snd (snd (try_block e j fs)) (excel_path j)
           = Some (Xlsx (ws (fst (snd (try_block e j fs)))))
         \<and> fst (last (log (fst (snd (try_block e j fs)))))
           = Document (basename (excel_path j)) (Xlsx (ws (fst (snd (try_block e j fs)))))"
proof -
  from assms obtain pages where
    "try_block e j fs = convert e j pages fs (snd (bot_call e \<lparr>ws = Workbook, log = [], units = 0\<rparr> Processing))"
    by (auto simp: try_block_def Let_def bot_call_def split: if_splits option.splits stored.splits)
  with assms convert_completed [of e j pages fs] show ?thesis by simp
qed


text \<open>
  C10, as amended. The filter accepts a name whose lower-case form ends in \<open>.pdf\<close>; the
  output path is the source path with every occurrence of the lower-case \<open>.pdf\<close>
  replaced. For an accepted name with no lower-case \<open>.pdf\<close> in it the two paths are
  equal: a run that completes saves the workbook at the source path, over the downloaded
  PDF, and sends it under the base name of that path, which is the original name when
  the name has no slash.
\<close>

theorem uppercase_name_overwrites_source:
  assumes acc: "endswith (lower (file_name u)) ''.pdf''"
      and nosub: "\<not> contains (file_name u) ''.pdf''"
      and dl: "snd (step s (Admitted u)) = Downloaded j"
      and fin: "fst (try_block e j fs) = Return Completed"
  shows "(snd (step s (Arrived u)) = Admitted u
            \<longleftrightarrow> \<not> size_exceeded (file_size u) \<and> active_jobs s (chat_id u) = None)
         \<and> pdf_path j = ''/tmp/'' @ file_name u
         \<and> excel_path j = pdf_path j
         \<and> snd (snd (try_block e j fs)) (pdf_path j)
             = Some (Xlsx (ws (fst (snd (try_block e j fs)))))
         \<and> fst (last (log (fst (snd (try_block e j fs)))))
             = Document (basename (pdf_path j)) (Xlsx (ws (fst (snd (try_block e j fs)))))
         \<and> (CHR ''/'' \<notin> set (file_name u) \<longrightarrow> basename (pdf_path j) = file_name u)"
proof -
  have adm: "snd (step s (Arrived u)) = Admitted u
            \<longleftrightarrow> \<not> size_exceeded (file_size u) \<and> active_jobs s (chat_id u) = None"
    using acc by auto
  from step_admitted_job [OF dl]
  have p: "pdf_path j = source_path (file_name u)"
    and x: "excel_path j = output_path (file_name u)" by simp_all
  from x output_eq_source [OF nosub] p have same: "excel_path j = pdf_path j" by simp
  have src: "pdf_path j = ''/tmp/'' @ file_name u"
    using p by (simp add: source_path_def)
  have base: "CHR ''/'' \<notin> set (file_name u) \<longrightarrow> basename (pdf_path j) = file_name u"
    using basename_no_slash [of "file_name u"] src by simp
  from try_block_completed [OF fin] same adm src base show ?thesis by simp
qed

lemma ends_upper: "endswith (lower ''REPORT.PDF'') ''.pdf''"
  by code_simp

lemma no_sub_upper: "\<not> contains ''REPORT.PDF'' ''.pdf''"
  by code_simp

lemma upper_run_completes:
  "fst (try_block calm (job_for 7 ''REPORT.PDF'') (tmp_with ''REPORT.PDF'' [table_page])) = Return Completed"
  by (simp add: try_block_def convert_def calm_def job_for_def tmp_with_def table_page_def
        bot_call_def Workbook_def MAX_PAGES_def PROGRESS_STEPS_def extract_table_def
        ws_append_def check_string_def max_row_def row1_all_none_def)

theorem uppercase_name_overwrites_source_witness:
  "endswith (lower ''REPORT.PDF'') ''.pdf''
   \<and> \<not> contains ''REPORT.PDF'' ''.pdf''
   \<and> fst (try_block calm (job_for 7 ''REPORT.PDF'') (tmp_with ''REPORT.PDF'' [table_page]))
       = Return Completed
   \<and> excel_path (job_for 7 ''REPORT.PDF'') = ''/tmp/REPORT.PDF''
   \<and> basename (pdf_path (job_for 7 ''REPORT.PDF'')) = ''REPORT.PDF''"
proof -
  have n: "file_name (upload 7 ''REPORT.PDF'' 1000) = ''REPORT.PDF''"
    by (simp add: upload_def)
  have dl: "snd (step sys0 (Admitted (upload 7 ''REPORT.PDF'' 1000)))
              = Downloaded (job_for 7 ''REPORT.PDF'')"
    by (simp add: upload_def sys0_def job_for_def reply_text_def)
  have noslash: "CHR ''/'' \<notin> set (file_name (upload 7 ''REPORT.PDF'' 1000))"
    by (simp add: n)
  from uppercase_name_overwrites_source
         [of "upload 7 ''REPORT.PDF'' 1000" sys0 "job_for 7 ''REPORT.PDF''" calm
             "tmp_with ''REPORT.PDF'' [table_page]"]
       ends_upper no_sub_upper dl upper_run_completes noslash n
  have "excel_path (job_for 7 ''REPORT.PDF'') = ''/tmp/REPORT.PDF''
        \<and> basename (pdf_path (job_for 7 ''REPORT.PDF'')) = ''REPORT.PDF''"
    by simp
  with ends_upper no_sub_upper upper_run_completes show ?thesis by simp
qed

text \<open>
  The claim as worded fails on the replacement: in \<open>a.pdf.pdf\<close>, an accepted name, both
  occurrences are replaced, where replacing the first alone would leave the second.
\<close>

theorem replace_every_occurrence_counterexample:
  "endswith (lower ''a.pdf.pdf'') ''.pdf''
   \<and> output_path ''a.pdf.pdf'' = ''/tmp/a.xlsx.xlsx''
   \<and> replace_first (source_path ''a.pdf.pdf'') ''.pdf'' ''.xlsx'' = ''/tmp/a.xlsx.pdf''"
proof -
  have "endswith (lower ''a.pdf.pdf'') ''.pdf''" by code_simp
  then show ?thesis by (simp add: output_path_def source_path_def)
qed

section \<open>Single flight\<close>

lemma ends_a: "endswith (lower ''a.pdf'') ''.pdf''"
  by code_simp

text \<open>
  With no other handler in between, an upload that passes the two filters while its chat
  has an entry in the registry is answered with the notice of a running conversion, and
  nothing else changes.
\<close>

lemma handle_pdf_already_running:
  assumes "endswith (lower (file_name u)) ''.pdf''" and "\<not> size_exceeded (file_size u)"
      and "active_jobs s (chat_id u) = Some j"
  shows "handle_pdf s u = s\<lparr>replies := replies s @ [(chat_id u, AlreadyRunning)]\<rparr>"
  using assms by (simp add: handle_pdf_def reply_text_def)

text \<open>
  C1. At most one job per chat, the look-up and the insertion being one atomic
  operation: the handler does the look-up and the insertion in two separate sections
  under the lock, with the download in between. Two uploads of chat 7 whose handlers
  alternate both find the registry empty, both are told that processing starts, and
  both start a thread; the registry keeps the second job only.
\<close>

theorem check_then_insert_race:
  "map job_chat_id (threads (fst (interleave sys0
       [Arrived (upload 7 ''a.pdf'' 1000), Arrived (upload 7 ''a.pdf'' 1000)]
       [0, 1, 0, 1, 0, 1]))) = [7, 7]
   \<and> map status_message_id (threads (fst (interleave sys0
       [Arrived (upload 7 ''a.pdf'' 1000), Arrived (upload 7 ''a.pdf'' 1000)]
       [0, 1, 0, 1, 0, 1]))) = [0, 2]
   \<and> map snd (replies (fst (interleave sys0
       [Arrived (upload 7 ''a.pdf'' 1000), Arrived (upload 7 ''a.pdf'' 1000)]
       [0, 1, 0, 1, 0, 1]))) = [StartingProcessing, StartingProcessing]
   \<and> map_option status_message_id (active_jobs (fst (interleave sys0
       [Arrived (upload 7 ''a.pdf'' 1000), Arrived (upload 7 ''a.pdf'' 1000)]
       [0, 1, 0, 1, 0, 1])) 7) = Some 2"
  by (simp add: upload_def sys0_def reply_text_def ends_a small_size source_path_def
        output_path_def)

section \<open>Facts about the worker\<close>

lemma convert_empty:
  "convert e j [] fs r =
     (if bot_raises e (length (log r)) then Raise else Return (Failed EmptyDocument),
      r\<lparr>log := log r @ [(EmptyPdf, \<not> bot_raises e (length (log r)))]\<rparr>, fs)"
  by (simp add: convert_def bot_call_def)

text \<open>
  C8, as amended. In the worker of app.py, a PDF with no page: no page is handed to the
  extractor, and the run is never reported as a document without tables. When the two
  edits of the status message are delivered, the run ends on the return for an empty
  document, and the client has received the processing notice and then the notice of
  an empty PDF; when one of the two raises, the run ends in the \<open>except\<close> clause.
\<close>

theorem empty_document_fails:
  assumes "files s (pdf_path j) = Some (Pdf [])"
  shows "units (final (process_pdf_async e j s)) = 0
         \<and> outcome (process_pdf_async e j s) \<noteq> Failed NoTableDetected
         \<and> (\<not> bot_raises e 0 \<and> \<not> bot_raises e 1 \<longrightarrow>
              outcome (process_pdf_async e j s) = Failed EmptyDocument
              \<and> log (final (process_pdf_async e j s)) = [(Processing, True), (EmptyPdf, True)])
         \<and> (bot_raises e 0 \<or> bot_raises e 1 \<longrightarrow>
              outcome (process_pdf_async e j s) = Failed UnexpectedFault)"
  using assms
  by (auto simp: process_pdf_async_def try_block_def convert_empty bot_call_def Let_def)

theorem empty_document_fails_witness:
  "files (sys_with 7 ''a.pdf'' []) (pdf_path (job_for 7 ''a.pdf'')) = Some (Pdf [])
   \<and> outcome (process_pdf_async calm (job_for 7 ''a.pdf'') (sys_with 7 ''a.pdf'' []))
       = Failed EmptyDocument
   \<and> map fst (log (final (process_pdf_async calm (job_for 7 ''a.pdf'') (sys_with 7 ''a.pdf'' []))))
       = [Processing, EmptyPdf]
   \<and> units (final (process_pdf_async calm (job_for 7 ''a.pdf'') (sys_with 7 ''a.pdf'' []))) = 0"
proof -
  have f: "files (sys_with 7 ''a.pdf'' []) (pdf_path (job_for 7 ''a.pdf'')) = Some (Pdf [])"
    by (simp add: sys_with_def tmp_with_def job_for_def)
  have b: "\<not> bot_raises calm 0 \<and> \<not> bot_raises calm 1"
    by (simp add: calm_def)
  from empty_document_fails [OF f, of calm] b f show ?thesis by simp
qed

text \<open>
  The claim as worded fails in Bot.py, whose handler has no case for an empty document:
  it answers a PDF without pages as it answers one without tables.
\<close>

lemma bot_empty_document:
  "endswith (lower name) ''.pdf'' \<Longrightarrow> handle_document name (Some (Pdf [])) = BotNoTables"
  by (simp add: handle_document_def)

theorem bot_empty_document_counterexample:
  "endswith (lower ''a.pdf'') ''.pdf''
   \<and> handle_document ''a.pdf'' (Some (Pdf [])) = BotNoTables"
  using bot_empty_document [OF ends_a] ends_a by simp

section \<open>Cancellation\<close>

lemma append_rows_ok:
  "\<forall>r. \<not> append_raises e r \<Longrightarrow> append_rows e w rows = Some (fold (\<lambda>r w. ws_append w r) rows w)"
  by (induction rows arbitrary: w) simp_all

lemma page_loop_cancel:
  assumes "is_set e k" and "\<forall>i'. i \<le> i' \<and> i' < k \<longrightarrow> \<not> is_set e i'"
      and "i \<le> k" and "k < i + length ps"
      and "\<forall>n. \<not> bot_raises e n" and "\<forall>r. \<not> append_raises e r"
  shows "fst (page_loop e tot stp i ps r) = Return (Cancelled k)
         \<and> units (snd (page_loop e tot stp i ps r)) = units r + (k - i)
         \<and> last (log (snd (page_loop e tot stp i ps r))) = (CancelledAt k tot, True)"
  using assms
proof (induction ps arbitrary: i r)
  case Nil
  then show ?case by simp
next
  case (Cons p ps)
  show ?case
  proof (cases "i = k")
    case True
    with Cons.prems show ?thesis by (simp add: bot_call_def)
  next
    case False
    with Cons.prems have ik: "i + 1 \<le> k" and nset: "\<not> is_set e i" by auto
    let ?rows = "case extract_table p of None \<Rightarrow> [] | Some t \<Rightarrow> t"
    let ?r2 = "r\<lparr>units := units r + 1, ws := fold (\<lambda>r w. ws_append w r) ?rows (ws r)\<rparr>"
    let ?r3 = "if (i + 1) mod stp = 0 \<or> i + 1 = tot
               then snd (bot_call e ?r2 (Progress (percent_of (i + 1) tot) (i + 1) tot)) else ?r2"
    have unf: "page_loop e tot stp i (p # ps) r = page_loop e tot stp (i + 1) ps ?r3"
      using nset append_rows_ok [OF Cons.prems(6)] by (simp add: Let_def)
    have u3: "units ?r3 = units r + 1" by simp
    have "fst (page_loop e tot stp (i + 1) ps ?r3) = Return (Cancelled k)
         \<and> units (snd (page_loop e tot stp (i + 1) ps ?r3)) = units ?r3 + (k - (i + 1))
         \<and> last (log (snd (page_loop e tot stp (i + 1) ps ?r3))) = (CancelledAt k tot, True)"
      using Cons.prems ik by (intro Cons.IH) auto
    with unf u3 ik show ?thesis by simp
  qed
qed


lemma try_block_open:
  assumes "\<not> bot_raises e 0" and "fs (pdf_path j) = Some (Pdf pages)"
  shows "try_block e j fs = convert e j pages fs \<lparr>ws = Workbook, log = [(Processing, True)], units = 0\<rparr>"
  using assms by (simp add: try_block_def bot_call_def)

lemma convert_return:
  assumes "pages \<noteq> []"
      and "fst (page_loop e (min (length pages) MAX_PAGES)
                  (max 1 (min (length pages) MAX_PAGES div PROGRESS_STEPS)) 0
                  (take (min (length pages) MAX_PAGES) pages) r) = Return oc"
  shows "convert e j pages fs r =
           (Return oc,
            snd (page_loop e (min (length pages) MAX_PAGES)
                  (max 1 (min (length pages) MAX_PAGES div PROGRESS_STEPS)) 0
                  (take (min (length pages) MAX_PAGES) pages) r), fs)"
proof -
  let ?n = "min (length pages) MAX_PAGES"
  obtain c r1 where pl:
    "page_loop e ?n (max 1 (?n div PROGRESS_STEPS)) 0 (take ?n pages) r = (c, r1)"
    by (cases "page_loop e ?n (max 1 (?n div PROGRESS_STEPS)) 0 (take ?n pages) r")
  with assms(2) have "c = Return oc" by simp
  with pl assms(1) show ?thesis by (simp add: convert_def Let_def)
qed

lemma process_return:
  assumes "try_block e j (files s) = (Return oc, r, fs)"
  shows "outcome (process_pdf_async e j s) = oc \<and> final (process_pdf_async e j s) = r
         \<and> files (after (process_pdf_async e j s))
             = remove_temp_files e (pdf_path j) (excel_path j) fs"
  using assms by (simp add: process_pdf_async_def)

lemma run_cancelled:
  assumes f: "files s (pdf_path j) = Some (Pdf pages)"
      and k: "k < min (length pages) MAX_PAGES"
      and set: "is_set e k" and first: "\<forall>i. i < k \<longrightarrow> \<not> is_set e i"
      and bot: "\<forall>n. \<not> bot_raises e n" and app: "\<forall>r. \<not> append_raises e r"
  shows "outcome (process_pdf_async e j s) = Cancelled k
         \<and> units (final (process_pdf_async e j s)) = k
         \<and> last (log (final (process_pdf_async e j s)))
             = (CancelledAt k (min (length pages) MAX_PAGES), True)
         \<and> files (after (process_pdf_async e j s))
             = remove_temp_files e (pdf_path j) (excel_path j) (files s)"
proof -
  let ?n = "min (length pages) MAX_PAGES"
  let ?stp = "max 1 (?n div PROGRESS_STEPS)"
  let ?r0 = "\<lparr>ws = Workbook, log = [(Processing, True)], units = 0\<rparr>"
  let ?pl = "page_loop e ?n ?stp 0 (take ?n pages) ?r0"
  from k have ne: "pages \<noteq> []" by auto
  have len: "k < 0 + length (take ?n pages)" using k by simp
  have pl: "fst ?pl = Return (Cancelled k) \<and> units (snd ?pl) = units ?r0 + (k - 0)
            \<and> last (log (snd ?pl)) = (CancelledAt k ?n, True)"
    by (rule page_loop_cancel [OF set _ _ len bot app]) (use first in auto)
  from convert_return [OF ne conjunct1 [OF pl]] try_block_open [where e = e and j = j and fs = "files s" and pages = pages] f bot
  have "try_block e j (files s) = (Return (Cancelled k), snd ?pl, files s)" by simp
  from process_return [OF this] pl show ?thesis by simp
qed

text \<open>
  C3, as amended. When the cancel event is first found set at the check at the top of
  iteration \<open>k\<close>, with \<open>k\<close> below the number of pages to process, and neither the bot
  nor the worksheet raises, then exactly the first \<open>k\<close> pages have been handed to the
  extractor, the run ends on the return in the loop, \<open>k\<close> is below the page count, and
  the last message, delivered, is the cancellation notice showing \<open>k\<close> and the number of
  pages to process. In the scenario with 25 pages, an event set after page 12 is
  processed is found at the check before page 13: 12 pages are processed and the notice
  reads 12/25. The count is 13 when the event is set only while page 13 is being
  processed.
\<close>

theorem cancelled_before_unit:
  assumes "files s (pdf_path j) = Some (Pdf pages)"
      and "k < min (length pages) MAX_PAGES"
      and "is_set e k" and "\<forall>i. i < k \<longrightarrow> \<not> is_set e i"
      and "\<forall>n. \<not> bot_raises e n" and "\<forall>r. \<not> append_raises e r"
  shows "outcome (process_pdf_async e j s) = Cancelled k
         \<and> units (final (process_pdf_async e j s)) = k
         \<and> k < length pages
         \<and> last (log (final (process_pdf_async e j s)))
             = (CancelledAt k (min (length pages) MAX_PAGES), True)
         \<and> text_of (CancelledAt k (min (length pages) MAX_PAGES))
             = cross_mark @ '' Conversion cancelled at page '' @ str k @ ''/''
                 @ str (min (length pages) MAX_PAGES) @ ''.''"
  using run_cancelled [OF assms] assms(2) by simp

lemma scenario_length: "length scenario_pages = 25"
  by (simp add: scenario_pages_def)

lemma scenario_file:
  "files (sys_with 7 ''a.pdf'' scenario_pages) (pdf_path (job_for 7 ''a.pdf'')) = Some (Pdf scenario_pages)"
  by (simp add: sys_with_def tmp_with_def job_for_def)

lemma cancel_after_simps:
  "is_set (cancel_after n) i = (n \<le> i)"
  "bot_raises (cancel_after n) m = False"
  "append_raises (cancel_after n) r = False"
  "remove_raises (cancel_after n) p = False"
  by (simp_all add: cancel_after_def calm_def)

lemma str_12: "str 12 = ''12''" by code_simp
lemma str_13: "str 13 = ''13''" by code_simp
lemma str_25: "str 25 = ''25''" by code_simp

theorem cancelled_before_unit_witness:
  "outcome (process_pdf_async (cancel_after 13) (job_for 7 ''a.pdf'') (sys_with 7 ''a.pdf'' scenario_pages))
     = Cancelled 13
   \<and> units (final (process_pdf_async (cancel_after 13) (job_for 7 ''a.pdf'')
                     (sys_with 7 ''a.pdf'' scenario_pages))) = 13
   \<and> text_of (CancelledAt 13 25) = cross_mark @ '' Conversion cancelled at page 13/25.''"
proof -
  have m: "min (length scenario_pages) MAX_PAGES = 25"
    by (simp add: scenario_length MAX_PAGES_def)
  from cancelled_before_unit [OF scenario_file, of 13 "cancel_after 13"] m
  show ?thesis by (simp add: cancel_after_simps str_13 str_25)
qed

text \<open>
  The claim as worded says 13 for an event set after page 12 is processed; the run
  stops at 12, and no output file is left.
\<close>

theorem scenario_counterexample:
  "outcome (process_pdf_async (cancel_after 12) (job_for 7 ''a.pdf'') (sys_with 7 ''a.pdf'' scenario_pages))
     = Cancelled 12
   \<and> units (final (process_pdf_async (cancel_after 12) (job_for 7 ''a.pdf'')
                     (sys_with 7 ''a.pdf'' scenario_pages))) = 12
   \<and> text_of (fst (last (log (final (process_pdf_async (cancel_after 12) (job_for 7 ''a.pdf'')
                     (sys_with 7 ''a.pdf'' scenario_pages))))))
       = cross_mark @ '' Conversion cancelled at page 12/25.''
   \<and> files (after (process_pdf_async (cancel_after 12) (job_for 7 ''a.pdf'')
                     (sys_with 7 ''a.pdf'' scenario_pages))) (excel_path (job_for 7 ''a.pdf'')) = None"
proof -
  have m: "min (length scenario_pages) MAX_PAGES = 25"
    by (simp add: scenario_length MAX_PAGES_def)
  have x: "excel_path (job_for 7 ''a.pdf'') = ''/tmp/a.xlsx''" and p: "pdf_path (job_for 7 ''a.pdf'') = ''/tmp/a.pdf''"
    by (simp_all add: job_for_def output_path_def source_path_def)
  from run_cancelled [OF scenario_file, of 12 "cancel_after 12"] m
  show ?thesis
    by (simp add: cancel_after_simps str_12 str_25 remove_temp_files_def x p sys_with_def tmp_with_def source_path_def)
qed

section \<open>Cleanup\<close>

lemma remove_temp_files_ok:
  assumes "\<not> remove_raises e p" and "\<not> remove_raises e x"
  shows "remove_temp_files e p x fs = fs(p := None, x := None)"
  using assms by (auto simp: remove_temp_files_def Let_def)

lemma remove_temp_files_other:
  "q \<noteq> p \<Longrightarrow> q \<noteq> x \<Longrightarrow> remove_temp_files e p x fs q = fs q"
  by (simp add: remove_temp_files_def Let_def)

lemma remove_temp_files_first_raises:
  "fs p \<noteq> None \<Longrightarrow> remove_raises e p \<Longrightarrow> remove_temp_files e p x fs = fs"
  by (simp add: remove_temp_files_def)

lemma bot_call_remove_raises [simp]:
  "bot_call (e\<lparr>remove_raises := rr\<rparr>) r m = bot_call e r m"
  by (simp add: bot_call_def)

lemma append_rows_remove_raises [simp]:
  "append_rows (e\<lparr>remove_raises := rr\<rparr>) w rows = append_rows e w rows"
  by (induction rows arbitrary: w) simp_all

lemma page_loop_remove_raises [simp]:
  "page_loop (e\<lparr>remove_raises := rr\<rparr>) tot stp i ps r = page_loop e tot stp i ps r"
  by (induction ps arbitrary: i r) (simp_all add: Let_def split: option.splits)

lemma convert_remove_raises [simp]:
  "convert (e\<lparr>remove_raises := rr\<rparr>) j pages fs r = convert e j pages fs r"
  by (simp add: convert_def Let_def
        cong del: prod.case_cong_weak control.case_cong_weak if_weak_cong)

lemma try_block_remove_raises [simp]:
  "try_block (e\<lparr>remove_raises := rr\<rparr>) j fs = try_block e j fs"
  by (simp add: try_block_def split: prod.splits option.splits stored.splits)

lemma process_unfold:
  "active_jobs (after (process_pdf_async e j s)) = (active_jobs s)(job_chat_id j := None)"
  "files (after (process_pdf_async e j s))
     = remove_temp_files e (pdf_path j) (excel_path j) (snd (snd (try_block e j (files s))))"
  "threads (after (process_pdf_async e j s)) = threads s"
  by (simp_all add: process_pdf_async_def case_prod_unfold Let_def
        cong del: control.case_cong_weak)

lemma process_remove_raises:
  "outcome (process_pdf_async (e\<lparr>remove_raises := rr\<rparr>) j s) = outcome (process_pdf_async e j s)"
  "final (process_pdf_async (e\<lparr>remove_raises := rr\<rparr>) j s) = final (process_pdf_async e j s)"
  by (simp_all add: process_pdf_async_def case_prod_unfold Let_def
        cong del: control.case_cong_weak)

section \<open>Order of the notifications\<close>

lemma reports_snoc:
  "reports (lg @ [x]) = reports lg @ (case progress_of x of None \<Rightarrow> [] | Some y \<Rightarrow> [y])"
  by (simp add: reports_def List.map_filter_def split: option.splits)

lemma reports_Nil [simp]: "reports [] = []"
  by (simp add: reports_def List.map_filter_def)

lemma ordered_upto_mono: "ordered_upto tot i lg \<Longrightarrow> i \<le> i' \<Longrightarrow> ordered_upto tot i' lg"
  by (auto simp: ordered_upto_def list_all_iff)

lemma ordered_upto_progress:
  assumes "ordered_upto tot i lg"
  shows "ordered_upto tot (i + 1) (lg @ [(Progress (percent_of (i + 1) tot) (i + 1) tot, d)])"
  using assms
  by (auto simp: ordered_upto_def reports_snoc sorted_wrt_append list_all_iff)

lemma ordered_upto_other:
  assumes "ordered_upto tot i lg" and "progress_of (m, d) = None"
  shows "ordered_upto tot i (lg @ [(m, d)])"
  using assms by (simp add: ordered_upto_def reports_snoc)

lemma reports_append: "reports (xs @ ys) = reports xs @ reports ys"
  by (simp add: reports_def List.map_filter_def)

lemma ordered_upto_others:
  assumes "ordered_upto tot i lg" and "list_all (\<lambda>x. progress_of x = None) xs"
  shows "ordered_upto tot i (lg @ xs)"
proof -
  from assms(2) have "reports xs = []"
    by (induction xs) (simp_all add: reports_def List.map_filter_def)
  with assms(1) show ?thesis by (simp add: ordered_upto_def reports_append)
qed

lemma page_loop_ordered:
  "ordered_upto tot i (log r) \<Longrightarrow>
     ordered_upto tot (i + length ps) (log (snd (page_loop e tot stp i ps r)))"
proof (induction ps arbitrary: i r)
  case Nil
  then show ?case by simp
next
  case (Cons p ps)
  show ?case
  proof (cases "is_set e i")
    case True
    have "ordered_upto tot i (log r @ [(CancelledAt i tot, \<not> bot_raises e (length (log r)))])"
      using Cons.prems by (intro ordered_upto_other) simp_all
    then have "ordered_upto tot (i + length (p # ps))
                 (log r @ [(CancelledAt i tot, \<not> bot_raises e (length (log r)))])"
      by (rule ordered_upto_mono) simp
    with True show ?thesis by (simp add: bot_call_def)
  next
    case False
    let ?r1 = "r\<lparr>units := units r + 1\<rparr>"
    let ?rows = "case extract_table p of None \<Rightarrow> [] | Some t \<Rightarrow> t"
    show ?thesis
    proof (cases "append_rows e (ws ?r1) ?rows")
      case None
      with False Cons.prems show ?thesis
        by (auto simp: Let_def intro: ordered_upto_mono)
    next
      case (Some w)
      let ?r2 = "?r1\<lparr>ws := w\<rparr>"
      let ?r3 = "if (i + 1) mod stp = 0 \<or> i + 1 = tot
                 then snd (bot_call e ?r2 (Progress (percent_of (i + 1) tot) (i + 1) tot)) else ?r2"
      have unf: "page_loop e tot stp i (p # ps) r = page_loop e tot stp (i + 1) ps ?r3"
        using False Some by (simp add: Let_def)
      have "ordered_upto tot (i + 1) (log ?r3)"
        using Cons.prems ordered_upto_progress [of tot i "log r"]
        by (auto intro: ordered_upto_mono)
      from Cons.IH [OF this] unf show ?thesis by simp
    qed
  qed
qed

lemma percent_of_mono: "a \<le> b \<Longrightarrow> percent_of a tot \<le> percent_of b tot"
  by (simp add: percent_of_def div_le_mono)

lemma ordered_upto_sorted:
  assumes "ordered_upto tot i lg"
  shows "sorted (map fst (reports lg)) \<and> sorted_wrt (<) (map snd (reports lg))"
proof -
  from assms have s: "sorted_wrt (<) (map snd (reports lg))"
    and a: "\<forall>x\<in>set (reports lg). fst x = percent_of (snd x) tot"
    by (auto simp: ordered_upto_def list_all_iff)
  from a have "map fst (reports lg) = map (\<lambda>x. percent_of (snd x) tot) (reports lg)"
    by simp
  moreover have "sorted (map (\<lambda>x. percent_of (snd x) tot) (reports lg))"
    unfolding sorted_wrt_map
    by (rule sorted_wrt_mono_rel [OF _ s [unfolded sorted_wrt_map]])
      (simp add: percent_of_mono)
  ultimately have "sorted (map fst (reports lg))" by (simp only:)
  with s show ?thesis by blast
qed


lemma page_loop_return_last:
  "fst (page_loop e tot stp i ps r) = Return oc \<Longrightarrow>
     terminal_for oc (fst (last (log (snd (page_loop e tot stp i ps r)))))"
proof (induction ps arbitrary: i r)
  case Nil
  then show ?case by simp
next
  case (Cons p ps)
  show ?case
  proof (cases "is_set e i")
    case True
    with Cons.prems show ?thesis
      by (auto simp: bot_call_def split: if_splits)
  next
    case False
    with Cons.prems Cons.IH show ?thesis
      by (auto simp: Let_def split: option.splits)
  qed
qed

lemma convert_log:
  assumes "ordered_upto (min (length pages) MAX_PAGES) 0 (log r)"
  shows "ordered_upto (min (length pages) MAX_PAGES) (min (length pages) MAX_PAGES)
           (log (fst (snd (convert e j pages fs r))))
         \<and> (\<forall>oc. fst (convert e j pages fs r) = Return oc \<longrightarrow>
               terminal_for oc (fst (last (log (fst (snd (convert e j pages fs r)))))))"
proof (cases "pages = []")
  case True
  with assms show ?thesis
    by (auto simp: convert_empty intro: ordered_upto_other)
next
  case False
  let ?n = "min (length pages) MAX_PAGES"
  let ?pl = "page_loop e ?n (max 1 (?n div PROGRESS_STEPS)) 0 (take ?n pages) r"
  obtain c r1 where pl: "?pl = (c, r1)"
    by (cases ?pl)
  have "ordered_upto ?n (0 + length (take ?n pages)) (log (snd ?pl))"
    by (rule page_loop_ordered [OF assms])
  with pl have o1: "ordered_upto ?n ?n (log r1)" by simp
  show ?thesis
  proof (cases c)
    case Next
    with pl False o1 show ?thesis
      by (auto simp: convert_def Let_def bot_call_def intro!: ordered_upto_others)
  next
    case (Return oc)
    with pl have "fst ?pl = Return oc" and r1: "snd ?pl = r1" by simp_all
    from page_loop_return_last [OF this(1)] r1
    have "terminal_for oc (fst (last (log r1)))" by simp
    with Return pl False o1 show ?thesis
      by (auto simp: convert_def Let_def)
  next
    case Raise
    with pl False o1 show ?thesis
      by (auto simp: convert_def Let_def)
  qed
qed

lemma try_block_log:
  "ordered_upto (tot_of j fs) (tot_of j fs) (log (fst (snd (try_block e j fs))))
   \<and> (\<forall>oc. fst (try_block e j fs) = Return oc \<longrightarrow>
         terminal_for oc (fst (last (log (fst (snd (try_block e j fs)))))))"
proof -
  have o0: "ordered_upto n 0 [(Processing, d)]" for n d
    by (simp add: ordered_upto_def reports_snoc [of "[]", simplified])
  show ?thesis
  proof (cases "fs (pdf_path j)")
    case None
    then show ?thesis
      using o0 by (auto simp: try_block_def bot_call_def intro: ordered_upto_mono)
  next
    case (Some f)
    show ?thesis
    proof (cases f)
      case (Pdf pages)
      with Some convert_log [of pages "\<lparr>ws = Workbook, log = [(Processing, True)], units = 0\<rparr>" e j fs] o0
      show ?thesis
        by (auto simp: try_block_def bot_call_def tot_of_def intro: ordered_upto_mono)
    next
      case (Xlsx w)
      with Some show ?thesis
        using o0 by (auto simp: try_block_def bot_call_def intro: ordered_upto_mono)
    next
      case Garbage
      with Some show ?thesis
        using o0 by (auto simp: try_block_def bot_call_def intro: ordered_upto_mono)
    qed
  qed
qed


lemma page_loop_log_nonempty:
  "log r \<noteq> [] \<Longrightarrow> log (snd (page_loop e tot stp i ps r)) \<noteq> []"
  by (induction ps arbitrary: i r) (auto simp: Let_def bot_call_def split: option.splits)

lemma convert_log_nonempty:
  assumes "log r \<noteq> []"
  shows "log (fst (snd (convert e j pages fs r))) \<noteq> []"
proof -
  let ?n = "min (length pages) MAX_PAGES"
  let ?pl = "page_loop e ?n (max 1 (?n div PROGRESS_STEPS)) 0 (take ?n pages) r"
  obtain c r1 where pl: "?pl = (c, r1)"
    by (cases ?pl)
  from page_loop_log_nonempty [OF assms, of e ?n _ 0] pl have "log r1 \<noteq> []"
    by (metis snd_conv)
  with pl assms show ?thesis
    by (cases c) (auto simp: convert_def Let_def bot_call_def)
qed

lemma try_block_log_nonempty: "log (fst (snd (try_block e j fs))) \<noteq> []"
  using convert_log_nonempty [of "\<lparr>ws = Workbook, log = [(Processing, True)], units = 0\<rparr>" e j _ fs]
  by (auto simp: try_block_def bot_call_def split: option.splits stored.splits)

lemma set_reports_filter: "set (reports (filter P lg)) \<subseteq> set (reports lg)"
  by (auto simp: reports_def List.map_filter_def)

lemma reports_Cons:
  "reports (x # lg) = (case progress_of x of None \<Rightarrow> reports lg | Some y \<Rightarrow> y # reports lg)"
  by (simp add: reports_def List.map_filter_def split: option.splits)

lemma ordered_upto_filter: "ordered_upto tot i lg \<Longrightarrow> ordered_upto tot i (filter P lg)"
proof (induction lg)
  case Nil
  then show ?case by simp
next
  case (Cons x lg)
  from Cons.prems have tl: "ordered_upto tot i lg"
    by (auto simp: ordered_upto_def reports_Cons split: option.splits)
  note ih = Cons.IH [OF tl]
  show ?case
  proof (cases "P x")
    case False
    with ih show ?thesis by simp
  next
    case True
    show ?thesis
    proof (cases "progress_of x")
      case None
      with True ih show ?thesis by (simp add: ordered_upto_def reports_Cons)
    next
      case (Some y)
      with Cons.prems have "\<forall>z\<in>set (reports lg). snd y < snd z"
        and "snd y \<le> i \<and> fst y = percent_of (snd y) tot"
        by (auto simp: ordered_upto_def reports_Cons)
      with set_reports_filter [of P lg] True Some ih show ?thesis
        by (auto simp: ordered_upto_def reports_Cons)
    qed
  qed
qed

text \<open>
  C9. In every run, whatever is raised or cancelled: the percentages of the progress
  reports never decrease and their page numbers increase, among the reports issued and
  among those delivered; and the last message issued is the terminal notification of
  the outcome.
\<close>

theorem notifications_in_order:
  "sorted (map fst (reports (log (final (process_pdf_async e j s)))))
   \<and> sorted_wrt (<) (map snd (reports (log (final (process_pdf_async e j s)))))
   \<and> sorted (map fst (displayed (log (final (process_pdf_async e j s)))))
   \<and> sorted_wrt (<) (map snd (displayed (log (final (process_pdf_async e j s)))))
   \<and> log (final (process_pdf_async e j s)) \<noteq> []
   \<and> terminal_for (outcome (process_pdf_async e j s))
        (fst (last (log (final (process_pdf_async e j s)))))"
proof -
  let ?t = "try_block e j (files s)"
  let ?L = "log (final (process_pdf_async e j s))"
  let ?n = "tot_of j (files s)"
  note tb = try_block_log [of j "files s" e]
  have ne: "log (fst (snd ?t)) \<noteq> []" by (rule try_block_log_nonempty)
  have fin: "ordered_upto ?n ?n ?L \<and> ?L \<noteq> []
             \<and> terminal_for (outcome (process_pdf_async e j s)) (fst (last ?L))"
  proof (cases "fst ?t")
    case Next
    with tb ne show ?thesis
      by (auto simp: process_pdf_async_def case_prod_unfold Let_def bot_call_def
            intro!: ordered_upto_others)
  next
    case (Return oc)
    with tb ne show ?thesis
      by (auto simp: process_pdf_async_def case_prod_unfold Let_def)
  next
    case Raise
    with tb ne show ?thesis
      by (auto simp: process_pdf_async_def case_prod_unfold Let_def bot_call_def
            intro!: ordered_upto_others)
  qed
  from fin ordered_upto_sorted [of ?n ?n ?L]
       ordered_upto_sorted [OF ordered_upto_filter [of ?n ?n ?L snd]]
  show ?thesis by (simp add: displayed_def)
qed

lemma calm_run_completes:
  "outcome (process_pdf_async calm (job_for 7 ''a.pdf'') (sys_with 7 ''a.pdf'' [table_page]))
     = Completed"
  by (simp add: process_pdf_async_def try_block_def convert_def calm_def job_for_def
        sys_with_def tmp_with_def table_page_def bot_call_def Workbook_def MAX_PAGES_def
        PROGRESS_STEPS_def extract_table_def ws_append_def check_string_def max_row_def row1_all_none_def)

theorem notifications_in_order_witness:
  "outcome (process_pdf_async calm (job_for 7 ''a.pdf'') (sys_with 7 ''a.pdf'' [table_page]))
     = Completed
   \<and> terminal_for Completed
        (fst (last (log (final (process_pdf_async calm (job_for 7 ''a.pdf'')
                                  (sys_with 7 ''a.pdf'' [table_page]))))))
   \<and> sorted (map fst (displayed (log (final (process_pdf_async calm (job_for 7 ''a.pdf'')
                                  (sys_with 7 ''a.pdf'' [table_page]))))))"
  using notifications_in_order [of calm "job_for 7 ''a.pdf''" "sys_with 7 ''a.pdf'' [table_page]"]
    calm_run_completes
  by simp

section \<open>The page limit\<close>

lemma page_loop_units_le:
  "units (snd (page_loop e tot stp i ps r)) \<le> units r + length ps"
proof (induction ps arbitrary: i r)
  case Nil
  then show ?case by simp
next
  case (Cons p ps)
  show ?case
  proof (cases "is_set e i")
    case True
    then show ?thesis by (simp add: bot_call_def)
  next
    case False
    let ?r1 = "r\<lparr>units := units r + 1\<rparr>"
    let ?rows = "case extract_table p of None \<Rightarrow> [] | Some t \<Rightarrow> t"
    show ?thesis
    proof (cases "append_rows e (ws ?r1) ?rows")
      case None
      with False show ?thesis by (simp add: Let_def)
    next
      case (Some w)
      let ?r2 = "?r1\<lparr>ws := w\<rparr>"
      let ?r3 = "if (i + 1) mod stp = 0 \<or> i + 1 = tot
                 then snd (bot_call e ?r2 (Progress (percent_of (i + 1) tot) (i + 1) tot)) else ?r2"
      have unf: "page_loop e tot stp i (p # ps) r = page_loop e tot stp (i + 1) ps ?r3"
        using False Some by (simp add: Let_def)
      have "units ?r3 = units r + 1" by simp
      with Cons.IH [of "i + 1" ?r3] unf show ?thesis by simp
    qed
  qed
qed

lemma append_all_append: "append_all w (xs @ ys) = append_all (append_all w xs) ys"
  by (simp add: append_all_def)

lemma page_loop_next:
  assumes "\<forall>i. \<not> is_set e i" and "\<forall>r. \<not> append_raises e r"
  shows "fst (page_loop e tot stp i ps r) = Next
         \<and> units (snd (page_loop e tot stp i ps r)) = units r + length ps
         \<and> ws (snd (page_loop e tot stp i ps r)) = append_all (ws r) (rows_of ps)"
proof (induction ps arbitrary: i r)
  case Nil
  then show ?case by (simp add: rows_of_def append_all_def)
next
  case (Cons p ps)
  let ?rows = "case extract_table p of None \<Rightarrow> [] | Some t \<Rightarrow> t"
  let ?r2 = "r\<lparr>units := units r + 1, ws := append_all (ws r) ?rows\<rparr>"
  let ?r3 = "if (i + 1) mod stp = 0 \<or> i + 1 = tot
             then snd (bot_call e ?r2 (Progress (percent_of (i + 1) tot) (i + 1) tot)) else ?r2"
  have unf: "page_loop e tot stp i (p # ps) r = page_loop e tot stp (i + 1) ps ?r3"
    using assms append_rows_ok [OF assms(2)] by (simp add: Let_def append_all_def)
  have r3: "units ?r3 = units r + 1" "ws ?r3 = append_all (ws r) ?rows" by simp_all
  have rows: "rows_of (p # ps) = ?rows @ rows_of ps" by (simp add: rows_of_def)
  from Cons.IH [of "i + 1" ?r3] unf r3 rows show ?case
    by (simp add: append_all_append)
qed

lemma convert_clamp:
  assumes "MAX_PAGES < length pages"
  shows "convert e j pages fs r = convert e j (take MAX_PAGES pages) fs r"
proof -
  from assms have "pages \<noteq> []" "take MAX_PAGES pages \<noteq> []"
    by (auto simp: MAX_PAGES_def)
  moreover from assms have "min (length pages) MAX_PAGES = MAX_PAGES"
    "min (length (take MAX_PAGES pages)) MAX_PAGES = MAX_PAGES" by simp_all
  ultimately show ?thesis by (simp add: convert_def)
qed

lemma convert_fs:
  "fst (convert e j pages fs r) = fst (convert e j pages fs' r)
   \<and> fst (snd (convert e j pages fs r)) = fst (snd (convert e j pages fs' r))"
proof -
  let ?n = "min (length pages) MAX_PAGES"
  let ?pl = "page_loop e ?n (max 1 (?n div PROGRESS_STEPS)) 0 (take ?n pages) r"
  obtain c r1 where pl: "?pl = (c, r1)"
    by (cases ?pl)
  then show ?thesis
    by (cases c) (simp_all add: convert_def Let_def case_prod_unfold)
qed

lemma convert_units:
  "units (fst (snd (convert e j pages fs r))) \<le> units r + min (length pages) MAX_PAGES"
proof -
  let ?n = "min (length pages) MAX_PAGES"
  let ?pl = "page_loop e ?n (max 1 (?n div PROGRESS_STEPS)) 0 (take ?n pages) r"
  obtain c r1 where pl: "?pl = (c, r1)"
    by (cases ?pl)
  from page_loop_units_le [of e ?n "max 1 (?n div PROGRESS_STEPS)" 0 "take ?n pages" r] pl
  have "units r1 \<le> units r + ?n" by simp
  with pl show ?thesis
    by (cases c) (auto simp: convert_def Let_def bot_call_def)
qed

lemma convert_units_all:
  assumes "\<forall>i. \<not> is_set e i" and "\<forall>r. \<not> append_raises e r"
  shows "units (fst (snd (convert e j pages fs r))) = units r + min (length pages) MAX_PAGES
         \<and> ws (fst (snd (convert e j pages fs r)))
             = append_all (ws r) (rows_of (take MAX_PAGES pages))"
proof -
  let ?n = "min (length pages) MAX_PAGES"
  let ?pl = "page_loop e ?n (max 1 (?n div PROGRESS_STEPS)) 0 (take ?n pages) r"
  obtain c r1 where pl: "?pl = (c, r1)"
    by (cases ?pl)
  have tk: "take ?n pages = take MAX_PAGES pages" by (simp add: min_def)
  from page_loop_next [OF assms, of ?n "max 1 (?n div PROGRESS_STEPS)" 0 "take ?n pages" r] pl
  have "c = Next" "units r1 = units r + ?n" "ws r1 = append_all (ws r) (rows_of (take MAX_PAGES pages))"
    by (simp_all add: tk)
  with pl show ?thesis
    by (auto simp: convert_def Let_def bot_call_def rows_of_def append_all_def)
qed


lemma process_by_try_block:
  assumes "fst (try_block e j (files s)) = fst (try_block e j (files s'))"
      and "fst (snd (try_block e j (files s))) = fst (snd (try_block e j (files s')))"
  shows "outcome (process_pdf_async e j s) = outcome (process_pdf_async e j s')
         \<and> final (process_pdf_async e j s) = final (process_pdf_async e j s')"
  using assms
  by (cases "fst (try_block e j (files s'))")
     (simp_all add: process_pdf_async_def case_prod_unfold Let_def)

lemma try_block_pdf:
  assumes "fs (pdf_path j) = Some (Pdf pages)"
  shows "try_block e j fs =
           (if bot_raises e 0
            then (Raise, \<lparr>ws = Workbook, log = [(Processing, False)], units = 0\<rparr>, fs)
            else convert e j pages fs \<lparr>ws = Workbook, log = [(Processing, True)], units = 0\<rparr>)"
  using assms by (simp add: try_block_def bot_call_def)

lemma try_block_clamp:
  assumes "fs (pdf_path j) = Some (Pdf pages)" and "MAX_PAGES < length pages"
  shows "fst (try_block e j fs) = fst (try_block e j (fs(pdf_path j \<mapsto> Pdf (take MAX_PAGES pages))))
         \<and> fst (snd (try_block e j fs))
             = fst (snd (try_block e j (fs(pdf_path j \<mapsto> Pdf (take MAX_PAGES pages)))))"
proof -
  let ?fs' = "fs(pdf_path j \<mapsto> Pdf (take MAX_PAGES pages))"
  have f': "?fs' (pdf_path j) = Some (Pdf (take MAX_PAGES pages))" by simp
  show ?thesis
    using convert_fs [of e j "take MAX_PAGES pages" fs _ ?fs']
    by (simp add: try_block_pdf [where fs = fs and j = j, OF assms(1)]
          try_block_pdf [where fs = ?fs' and j = j, OF f'] convert_clamp [OF assms(2)])
qed

lemma try_block_units:
  assumes "fs (pdf_path j) = Some (Pdf pages)"
  shows "units (fst (snd (try_block e j fs))) \<le> min (length pages) MAX_PAGES"
  using convert_units [of e j pages fs "\<lparr>ws = Workbook, log = [(Processing, True)], units = 0\<rparr>"]
  by (simp add: try_block_pdf [where fs = fs and j = j, OF assms])

lemma try_block_units_all:
  assumes "fs (pdf_path j) = Some (Pdf pages)"
      and "\<forall>i. \<not> is_set e i" and "\<forall>r. \<not> append_raises e r" and "\<not> bot_raises e 0"
  shows "units (fst (snd (try_block e j fs))) = min (length pages) MAX_PAGES
         \<and> ws (fst (snd (try_block e j fs))) = append_all Workbook (rows_of (take MAX_PAGES pages))"
  using assms(4) convert_units_all [OF assms(2,3), of j pages fs "\<lparr>ws = Workbook, log = [(Processing, True)], units = 0\<rparr>"]
  by (simp add: try_block_pdf [where fs = fs and j = j, OF assms(1)])

lemma final_of_try_block:
  "units (final (process_pdf_async e j s)) = units (fst (snd (try_block e j (files s))))
   \<and> ws (final (process_pdf_async e j s)) = ws (fst (snd (try_block e j (files s))))"
  by (cases "fst (try_block e j (files s))")
     (simp_all add: process_pdf_async_def case_prod_unfold Let_def)

lemma start_text_note: "contains start_text ''very large PDFs may be partially processed''"
  by code_simp

section \<open>Runs that reach the end of the loop\<close>

lemma sent_documents_snoc:
  "sent_documents (lg @ [x]) = sent_documents lg @ (if is_document (fst x) then [x] else [])"
  by (simp add: sent_documents_def)

lemma page_loop_sent_documents:
  "sent_documents (log (snd (page_loop e tot stp i ps r))) = sent_documents (log r)"
proof (induction ps arbitrary: i r)
  case Nil
  then show ?case by simp
next
  case (Cons p ps)
  show ?case
  proof (cases "is_set e i")
    case True
    then show ?thesis by (simp add: bot_call_def sent_documents_snoc)
  next
    case False
    let ?r1 = "r\<lparr>units := units r + 1\<rparr>"
    let ?rows = "case extract_table p of None \<Rightarrow> [] | Some t \<Rightarrow> t"
    show ?thesis
    proof (cases "append_rows e (ws ?r1) ?rows")
      case None
      with False show ?thesis by (simp add: Let_def)
    next
      case (Some w)
      let ?r2 = "?r1\<lparr>ws := w\<rparr>"
      let ?r3 = "if (i + 1) mod stp = 0 \<or> i + 1 = tot
                 then snd (bot_call e ?r2 (Progress (percent_of (i + 1) tot) (i + 1) tot)) else ?r2"
      have unf: "page_loop e tot stp i (p # ps) r = page_loop e tot stp (i + 1) ps ?r3"
        using False Some by (simp add: Let_def)
      have "sent_documents (log ?r3) = sent_documents (log r)"
        by (simp add: sent_documents_snoc)
      with Cons.IH [of "i + 1" ?r3] unf show ?thesis by simp
    qed
  qed
qed

lemma empty_sheet: "max_row (append_all Workbook []) = 1 \<and> row1_all_none (append_all Workbook [])"
  by (simp add: append_all_def Workbook_def max_row_def row1_all_none_def)

lemma cells_append_all: "\<exists>ys. cells (append_all w rs) = cells w @ ys"
proof (induction rs arbitrary: w)
  case Nil
  then show ?case by (simp add: append_all_def)
next
  case (Cons r rs)
  from Cons.IH [of "ws_append w r"] show ?case
    by (auto simp: append_all_def ws_append_def)
qed

lemma first_row_value:
  assumes "c \<in> set r" and "c \<noteq> None"
  shows "\<not> row1_all_none (append_all Workbook (r # rs))"
proof -
  from assms(1) obtain k where k: "k < length r" "r ! k = c"
    by (auto simp: in_set_conv_nth)
  then have "(k, c) \<in> set (enumerate 0 r)"
    by (simp add: in_set_enumerate_eq)
  then have "((1, k + 1), check_string c) \<in> set (cells (ws_append Workbook r))"
    by (force simp: ws_append_def Workbook_def)
  moreover obtain ys where
    "cells (append_all Workbook (r # rs)) = cells (ws_append Workbook r) @ ys"
    using cells_append_all [of "ws_append Workbook r" rs] by (auto simp: append_all_def)
  ultimately have "((1, k + 1), check_string c) \<in> set (cells (append_all Workbook (r # rs)))"
    by simp
  moreover from assms(2) have "check_string c \<noteq> None"
    by (simp add: check_string_def)
  ultimately show ?thesis
    by (force simp: row1_all_none_def list_all_iff)
qed

lemma append_rows_sheet:
  "append_rows e w rows = Some w' \<Longrightarrow> w' = append_all w rows"
  by (induction rows arbitrary: w) (auto simp: append_all_def split: if_splits)

lemma page_loop_finished:
  "fst (page_loop e tot stp i ps r) = Next \<Longrightarrow>
     units (snd (page_loop e tot stp i ps r)) = units r + length ps
     \<and> ws (snd (page_loop e tot stp i ps r)) = append_all (ws r) (rows_of ps)"
proof (induction ps arbitrary: i r)
  case Nil
  then show ?case by (simp add: rows_of_def append_all_def)
next
  case (Cons p ps)
  let ?rows = "case extract_table p of None \<Rightarrow> [] | Some t \<Rightarrow> t"
  let ?r1 = "r\<lparr>units := units r + 1\<rparr>"
  from Cons.prems have nset: "\<not> is_set e i"
    by (auto simp: bot_call_def split: if_splits)
  with Cons.prems obtain w where w: "append_rows e (ws ?r1) ?rows = Some w"
    by (cases "append_rows e (ws ?r1) ?rows") (auto simp: Let_def)
  have w_eq: "w = append_all (ws r) ?rows"
    using w append_rows_sheet [of e "ws r" ?rows] by simp
  let ?r2 = "?r1\<lparr>ws := w\<rparr>"
  let ?r3 = "if (i + 1) mod stp = 0 \<or> i + 1 = tot
             then snd (bot_call e ?r2 (Progress (percent_of (i + 1) tot) (i + 1) tot)) else ?r2"
  have unf: "page_loop e tot stp i (p # ps) r = page_loop e tot stp (i + 1) ps ?r3"
    using nset w by (simp add: Let_def)
  have r3: "units ?r3 = units r + 1" "ws ?r3 = w" by simp_all
  have rows: "rows_of (p # ps) = ?rows @ rows_of ps" by (simp add: rows_of_def)
  from Cons.prems unf have "fst (page_loop e tot stp (i + 1) ps ?r3) = Next" by simp
  from Cons.IH [OF this] unf r3 rows w_eq show ?case
    by (simp add: append_all_append)
qed


lemma convert_finished:
  assumes ne: "pages \<noteq> []" and nd: "sent_documents (log r) = []"
      and ret: "fst (convert e j pages fs r) = Return oc" and nc: "\<forall>k. oc \<noteq> Cancelled k"
  shows "units (fst (snd (convert e j pages fs r))) = units r + min (length pages) MAX_PAGES
         \<and> ws (fst (snd (convert e j pages fs r)))
             = append_all (ws r) (rows_of (take MAX_PAGES pages))
         \<and> (if max_row (append_all (ws r) (rows_of (take MAX_PAGES pages))) = 1
                \<and> row1_all_none (append_all (ws r) (rows_of (take MAX_PAGES pages)))
             then oc = Failed NoTableDetected
                  \<and> sent_documents (log (fst (snd (convert e j pages fs r)))) = []
                  \<and> last (log (fst (snd (convert e j pages fs r)))) = (NoTables, True)
             else oc = Completed
                  \<and> snd (snd (convert e j pages fs r)) (excel_path j)
                      = Some (Xlsx (append_all (ws r) (rows_of (take MAX_PAGES pages))))
                  \<and> sent_documents (log (fst (snd (convert e j pages fs r))))
                      = [(Document (basename (excel_path j))
                            (Xlsx (append_all (ws r) (rows_of (take MAX_PAGES pages)))), True)]
                  \<and> last (log (fst (snd (convert e j pages fs r))))
                      = (Document (basename (excel_path j))
                            (Xlsx (append_all (ws r) (rows_of (take MAX_PAGES pages)))), True))"
proof -
  let ?n = "min (length pages) MAX_PAGES"
  let ?pl = "page_loop e ?n (max 1 (?n div PROGRESS_STEPS)) 0 (take ?n pages) r"
  obtain c r1 where pl: "?pl = (c, r1)"
    by (cases ?pl)
  have tk: "take ?n pages = take MAX_PAGES pages" by (simp add: min_def)
  show ?thesis
  proof (cases c)
    case Next
    with pl have "fst ?pl = Next" by simp
    from page_loop_finished [OF this] pl
    have u: "units r1 = units r + ?n"
      and w: "ws r1 = append_all (ws r) (rows_of (take MAX_PAGES pages))"
      by (simp_all add: tk)
    from page_loop_sent_documents [of e ?n "max 1 (?n div PROGRESS_STEPS)" 0 "take ?n pages" r]
         pl nd
    have d: "sent_documents (log r1) = []" by simp
    from pl Next u w d ne ret show ?thesis
      by (auto simp: convert_def Let_def bot_call_def sent_documents_def split: if_splits)
  next
    case (Return oc')
    with pl have "fst ?pl = Return oc'" by simp
    from page_loop_return [of e ?n _ 0 _ r oc' "snd ?pl"] this
    obtain k where "oc' = Cancelled k"
      by (metis prod.collapse)
    with pl Return ne ret nc show ?thesis
      by (auto simp: convert_def Let_def)
  next
    case Raise
    with pl ne ret show ?thesis
      by (auto simp: convert_def Let_def)
  qed
qed

lemma process_finished:
  assumes f: "files s (pdf_path j) = Some (Pdf pages)" and ne: "pages \<noteq> []"
      and nc: "\<forall>k. outcome (process_pdf_async e j s) \<noteq> Cancelled k"
      and nf: "outcome (process_pdf_async e j s) \<noteq> Failed UnexpectedFault"
  shows "units (final (process_pdf_async e j s)) = min (length pages) MAX_PAGES
         \<and> ws (final (process_pdf_async e j s))
             = append_all Workbook (rows_of (take MAX_PAGES pages))
         \<and> (if max_row (append_all Workbook (rows_of (take MAX_PAGES pages))) = 1
                \<and> row1_all_none (append_all Workbook (rows_of (take MAX_PAGES pages)))
             then outcome (process_pdf_async e j s) = Failed NoTableDetected
                  \<and> sent_documents (log (final (process_pdf_async e j s))) = []
                  \<and> last (log (final (process_pdf_async e j s))) = (NoTables, True)
             else outcome (process_pdf_async e j s) = Completed
                  \<and> snd (snd (try_block e j (files s))) (excel_path j)
                      = Some (Xlsx (append_all Workbook (rows_of (take MAX_PAGES pages))))
                  \<and> sent_documents (log (final (process_pdf_async e j s)))
                      = [(Document (basename (excel_path j))
                            (Xlsx (append_all Workbook (rows_of (take MAX_PAGES pages)))), True)]
                  \<and> last (log (final (process_pdf_async e j s)))
                      = (Document (basename (excel_path j))
                            (Xlsx (append_all Workbook (rows_of (take MAX_PAGES pages)))), True))"
proof -
  let ?r0 = "\<lparr>ws = Workbook, log = [(Processing, True)], units = 0\<rparr>"
  let ?cv = "convert e j pages (files s) ?r0"
  let ?P = "process_pdf_async e j s"
  note tb = try_block_pdf [where fs = "files s" and j = j and e = e, OF f]
  have b0: "\<not> bot_raises e 0"
  proof
    assume "bot_raises e 0"
    with tb have "outcome ?P = Failed UnexpectedFault"
      by (simp add: process_pdf_async_def)
    with nf show False by simp
  qed
  with tb have tb': "try_block e j (files s) = ?cv" by simp
  obtain oc where ret: "fst ?cv = Return oc"
    using nf tb' by (cases "fst ?cv") (auto simp: process_pdf_async_def case_prod_unfold Let_def)
  with tb' have oc: "outcome ?P = oc" and fin: "final ?P = fst (snd ?cv)"
    by (simp_all add: process_pdf_async_def case_prod_unfold Let_def)
  from nc oc have nc': "\<forall>k. oc \<noteq> Cancelled k" by simp
  have nd: "sent_documents (log ?r0) = []" by (simp add: sent_documents_def)
  from convert_finished [OF ne nd ret nc'] oc fin tb' show ?thesis by simp
qed


lemma convert_undisturbed:
  assumes ne: "pages \<noteq> []"
      and nc: "\<forall>i. \<not> is_set e i" and bot: "\<forall>n. \<not> bot_raises e n"
      and app: "\<forall>r. \<not> append_raises e r" and sv: "\<not> save_raises e"
      and nd: "sent_documents (log r) = []"
  shows "ws (fst (snd (convert e j pages fs r))) = append_all (ws r) (rows_of (take MAX_PAGES pages))
         \<and> (if max_row (append_all (ws r) (rows_of (take MAX_PAGES pages))) = 1
                \<and> row1_all_none (append_all (ws r) (rows_of (take MAX_PAGES pages)))
             then fst (convert e j pages fs r) = Return (Failed NoTableDetected)
                  \<and> sent_documents (log (fst (snd (convert e j pages fs r)))) = []
                  \<and> last (log (fst (snd (convert e j pages fs r)))) = (NoTables, True)
             else fst (convert e j pages fs r) = Return Completed
                  \<and> sent_documents (log (fst (snd (convert e j pages fs r))))
                      = [(Document (basename (excel_path j))
                            (Xlsx (append_all (ws r) (rows_of (take MAX_PAGES pages)))), True)]
                  \<and> last (log (fst (snd (convert e j pages fs r))))
                      = (Document (basename (excel_path j))
                            (Xlsx (append_all (ws r) (rows_of (take MAX_PAGES pages)))), True))"
proof -
  let ?n = "min (length pages) MAX_PAGES"
  let ?pl = "page_loop e ?n (max 1 (?n div PROGRESS_STEPS)) 0 (take ?n pages) r"
  obtain c r1 where pl: "?pl = (c, r1)"
    by (cases ?pl)
  have tk: "take ?n pages = take MAX_PAGES pages" by (simp add: min_def)
  from page_loop_next [OF nc app, of ?n "max 1 (?n div PROGRESS_STEPS)" 0 "take ?n pages" r] pl
  have c: "c = Next" and w: "ws r1 = append_all (ws r) (rows_of (take MAX_PAGES pages))"
    by (simp_all add: tk)
  from page_loop_sent_documents [of e ?n "max 1 (?n div PROGRESS_STEPS)" 0 "take ?n pages" r] pl nd
  have d: "sent_documents (log r1) = []" by simp
  from pl c w d ne bot sv show ?thesis
    by (simp add: convert_def Let_def bot_call_def sent_documents_def)
qed


lemma undisturbed_run_finishes:
  assumes f: "files s (pdf_path j) = Some (Pdf pages)" and ne: "pages \<noteq> []"
      and nc: "\<forall>i. \<not> is_set e i" and bot: "\<forall>n. \<not> bot_raises e n"
      and app: "\<forall>r. \<not> append_raises e r" and sv: "\<not> save_raises e"
  shows "outcome (process_pdf_async e j s) = Completed
         \<or> outcome (process_pdf_async e j s) = Failed NoTableDetected"
proof -
  let ?r0 = "\<lparr>ws = Workbook, log = [(Processing, True)], units = 0\<rparr>"
  have tb: "try_block e j (files s) = convert e j pages (files s) ?r0"
    using bot by (simp add: try_block_pdf [where fs = "files s" and j = j, OF f])
  have nd: "sent_documents (log ?r0) = []" by (simp add: sent_documents_def)
  from convert_undisturbed [OF ne nc bot app sv nd, of j "files s"]
  have "fst (convert e j pages (files s) ?r0) = Return (Failed NoTableDetected)
        \<or> fst (convert e j pages (files s) ?r0) = Return Completed"
    by (simp split: if_splits)
  then show ?thesis
    by (auto simp: process_pdf_async_def tb case_prod_unfold Let_def)
qed

lemma receivable_rows:
  assumes "list_all receivable ps" and "r \<in> set (rows_of ps)"
  shows "\<exists>c\<in>set r. c \<noteq> None"
proof -
  from assms(2) obtain p where p: "p \<in> set ps"
    and r: "r \<in> set (case extract_table p of None \<Rightarrow> [] | Some t \<Rightarrow> t)"
    by (auto simp: rows_of_def)
  from assms(1) p have "receivable p" by (simp add: list_all_iff)
  with r show ?thesis
    by (auto simp: receivable_def extract_table_def list_all_iff list_ex_iff
          split: page.splits option.splits)
qed

lemma receivable_sheet:
  assumes "list_all receivable ps"
  shows "(max_row (append_all Workbook (rows_of ps)) = 1
            \<and> row1_all_none (append_all Workbook (rows_of ps))) \<longleftrightarrow> rows_of ps = []"
proof (cases "rows_of ps")
  case Nil
  with empty_sheet show ?thesis by simp
next
  case (Cons r rs)
  with receivable_rows [OF assms, of r] obtain c where "c \<in> set r" "c \<noteq> None" by auto
  from first_row_value [OF this, of rs] Cons show ?thesis by simp
qed

section \<open>Tables and the outcome\<close>

text \<open>
  C5. A PDF with at least one page whose pages yield what \<open>pdfplumber\<close> can return, and
  a run that ends neither on the cancellation in the loop nor in the \<open>except\<close> clause.
  When the processed pages yield no row at all, the run ends on the return for no
  table, which is not the one for an empty document, and no document is sent. Otherwise
  the workbook holding all the rows is saved at the output path, the run completes, and
  that workbook is sent, as the one document and the last message.
\<close>

theorem rows_decide_outcome:
  assumes "files s (pdf_path j) = Some (Pdf pages)" and "pages \<noteq> []"
      and "list_all receivable (take MAX_PAGES pages)"
      and "\<forall>k. outcome (process_pdf_async e j s) \<noteq> Cancelled k"
      and "outcome (process_pdf_async e j s) \<noteq> Failed UnexpectedFault"
  shows "if rows_of (take MAX_PAGES pages) = []
         then outcome (process_pdf_async e j s) = Failed NoTableDetected
              \<and> outcome (process_pdf_async e j s) \<noteq> Failed EmptyDocument
              \<and> sent_documents (log (final (process_pdf_async e j s))) = []
              \<and> last (log (final (process_pdf_async e j s))) = (NoTables, True)
         else outcome (process_pdf_async e j s) = Completed
              \<and> snd (snd (try_block e j (files s))) (excel_path j)
                  = Some (Xlsx (append_all Workbook (rows_of (take MAX_PAGES pages))))
              \<and> sent_documents (log (final (process_pdf_async e j s)))
                  = [(Document (basename (excel_path j))
                        (Xlsx (append_all Workbook (rows_of (take MAX_PAGES pages)))), True)]
              \<and> last (log (final (process_pdf_async e j s)))
                  = (Document (basename (excel_path j))
                        (Xlsx (append_all Workbook (rows_of (take MAX_PAGES pages)))), True)"
  using process_finished [where s = s and j = j and e = e, OF assms(1,2,4,5)]
    receivable_sheet [OF assms(3)]
  by (simp split: if_splits)


lemma blank_run_no_table:
  "outcome (process_pdf_async calm (job_for 7 ''a.pdf'') (sys_with 7 ''a.pdf'' [blank_page]))
     = Failed NoTableDetected"
  by (simp add: process_pdf_async_def try_block_def convert_def calm_def job_for_def
        sys_with_def tmp_with_def blank_page_def bot_call_def Workbook_def MAX_PAGES_def
        PROGRESS_STEPS_def extract_table_def max_row_def row1_all_none_def)

theorem rows_decide_outcome_witness:
  "list_all receivable (take MAX_PAGES [blank_page])
   \<and> rows_of (take MAX_PAGES [blank_page]) = []
   \<and> outcome (process_pdf_async calm (job_for 7 ''a.pdf'') (sys_with 7 ''a.pdf'' [blank_page]))
       = Failed NoTableDetected
   \<and> sent_documents (log (final (process_pdf_async calm (job_for 7 ''a.pdf'')
                                    (sys_with 7 ''a.pdf'' [blank_page])))) = []
   \<and> list_all receivable (take MAX_PAGES [table_page])
   \<and> rows_of (take MAX_PAGES [table_page]) = [[Some ''x'', None]]
   \<and> outcome (process_pdf_async calm (job_for 7 ''a.pdf'') (sys_with 7 ''a.pdf'' [table_page]))
       = Completed
   \<and> length (sent_documents (log (final (process_pdf_async calm (job_for 7 ''a.pdf'')
                                    (sys_with 7 ''a.pdf'' [table_page]))))) = 1"
proof -
  have fb: "files (sys_with 7 ''a.pdf'' [blank_page]) (pdf_path (job_for 7 ''a.pdf''))
              = Some (Pdf [blank_page])"
    and ft: "files (sys_with 7 ''a.pdf'' [table_page]) (pdf_path (job_for 7 ''a.pdf''))
              = Some (Pdf [table_page])"
    by (simp_all add: sys_with_def tmp_with_def job_for_def)
  have rb: "list_all receivable (take MAX_PAGES [blank_page])"
    and rt: "list_all receivable (take MAX_PAGES [table_page])"
    by (simp_all add: MAX_PAGES_def receivable_def blank_page_def table_page_def)
  have zb: "rows_of (take MAX_PAGES [blank_page]) = []"
    and zt: "rows_of (take MAX_PAGES [table_page]) = [[Some ''x'', None]]"
    by (simp_all add: MAX_PAGES_def rows_of_def blank_page_def table_page_def extract_table_def)
  from rows_decide_outcome [where s = "sys_with 7 ''a.pdf'' [blank_page]"
         and j = "job_for 7 ''a.pdf''" and e = calm, OF fb _ rb] blank_run_no_table zb
  have b: "sent_documents (log (final (process_pdf_async calm (job_for 7 ''a.pdf'')
                                    (sys_with 7 ''a.pdf'' [blank_page])))) = []"
    by simp
  from rows_decide_outcome [where s = "sys_with 7 ''a.pdf'' [table_page]"
         and j = "job_for 7 ''a.pdf''" and e = calm, OF ft _ rt] calm_run_completes zt
  have t: "length (sent_documents (log (final (process_pdf_async calm (job_for 7 ''a.pdf'')
                                    (sys_with 7 ''a.pdf'' [table_page]))))) = 1"
    by simp
  from rb rt zb zt b t blank_run_no_table calm_run_completes show ?thesis by simp
qed

section \<open>The page limit, as the client sees it\<close>

lemma shows_total_snoc:
  "shows_total n (lg @ [x])
     = (shows_total n lg \<and> (case shown_total (fst x) of None \<Rightarrow> True | Some t \<Rightarrow> t = n))"
  by (simp add: shows_total_def)

lemma page_loop_shows_total:
  "shows_total tot (log r) \<Longrightarrow> shows_total tot (log (snd (page_loop e tot stp i ps r)))"
proof (induction ps arbitrary: i r)
  case Nil
  then show ?case by simp
next
  case (Cons p ps)
  show ?case
  proof (cases "is_set e i")
    case True
    with Cons.prems show ?thesis by (simp add: bot_call_def shows_total_snoc)
  next
    case False
    let ?r1 = "r\<lparr>units := units r + 1\<rparr>"
    let ?rows = "case extract_table p of None \<Rightarrow> [] | Some t \<Rightarrow> t"
    show ?thesis
    proof (cases "append_rows e (ws ?r1) ?rows")
      case None
      with False Cons.prems show ?thesis by (simp add: Let_def)
    next
      case (Some w)
      let ?r2 = "?r1\<lparr>ws := w\<rparr>"
      let ?r3 = "if (i + 1) mod stp = 0 \<or> i + 1 = tot
                 then snd (bot_call e ?r2 (Progress (percent_of (i + 1) tot) (i + 1) tot)) else ?r2"
      have unf: "page_loop e tot stp i (p # ps) r = page_loop e tot stp (i + 1) ps ?r3"
        using False Some by (simp add: Let_def)
      have "shows_total tot (log ?r3)"
        using Cons.prems by (simp add: shows_total_snoc)
      from Cons.IH [OF this] unf show ?thesis by simp
    qed
  qed
qed

lemma convert_shows_total:
  assumes "shows_total (min (length pages) MAX_PAGES) (log r)"
  shows "shows_total (min (length pages) MAX_PAGES) (log (fst (snd (convert e j pages fs r))))"
proof -
  let ?n = "min (length pages) MAX_PAGES"
  let ?pl = "page_loop e ?n (max 1 (?n div PROGRESS_STEPS)) 0 (take ?n pages) r"
  obtain c r1 where pl: "?pl = (c, r1)"
    by (cases ?pl)
  from page_loop_shows_total [OF assms, of e "max 1 (?n div PROGRESS_STEPS)" 0 "take ?n pages"] pl
  have "shows_total ?n (log r1)" by simp
  with pl assms show ?thesis
    by (cases c) (auto simp: convert_def Let_def bot_call_def shows_total_def)
qed

lemma process_shows_total:
  assumes "files s (pdf_path j) = Some (Pdf pages)"
  shows "shows_total (min (length pages) MAX_PAGES) (log (final (process_pdf_async e j s)))"
proof -
  let ?n = "min (length pages) MAX_PAGES"
  let ?r0 = "\<lparr>ws = Workbook, log = [(Processing, True)], units = 0\<rparr>"
  have r0: "shows_total ?n (log ?r0)" by (simp add: shows_total_def)
  note cv = convert_shows_total [OF r0, of e j "files s"]
  have tb: "shows_total ?n (log (fst (snd (try_block e j (files s)))))"
    using cv by (simp add: try_block_pdf [where fs = "files s" and j = j, OF assms] shows_total_def)
  then show ?thesis
    by (cases "fst (try_block e j (files s))")
       (simp_all add: process_pdf_async_def case_prod_unfold Let_def bot_call_def shows_total_def)
qed

lemma process_clamped:
  assumes "files s (pdf_path j) = Some (Pdf pages)" and "MAX_PAGES < length pages"
  shows "outcome (process_pdf_async e j s)
           = outcome (process_pdf_async e j
               (s\<lparr>files := (files s)(pdf_path j \<mapsto> Pdf (take MAX_PAGES pages))\<rparr>))
         \<and> final (process_pdf_async e j s)
           = final (process_pdf_async e j
               (s\<lparr>files := (files s)(pdf_path j \<mapsto> Pdf (take MAX_PAGES pages))\<rparr>))"
proof -
  let ?s' = "s\<lparr>files := (files s)(pdf_path j \<mapsto> Pdf (take MAX_PAGES pages))\<rparr>"
  from try_block_clamp [where fs = "files s" and j = j, OF assms, of e]
  have "fst (try_block e j (files s)) = fst (try_block e j (files ?s'))"
    and "fst (snd (try_block e j (files s))) = fst (snd (try_block e j (files ?s')))"
    by simp_all
  from process_by_try_block [OF this] show ?thesis .
qed

text \<open>
  C6, as amended. A PDF with more than 3000 pages is processed as its first 3000 pages
  are: the outcome, the messages, the worksheet and the number of extracted pages are
  those of the run on the PDF cut after page 3000, so the pages beyond are never touched
  and the cut is no error. At most 3000 pages are extracted, and exactly 3000 when the
  run ends completed or without a table. Nothing the run sends tells the client of the
  cut: the worker only logs it, and every total its messages show is 3000.
\<close>

theorem pages_clamped:
  assumes "files s (pdf_path j) = Some (Pdf pages)" and "MAX_PAGES < length pages"
  shows "outcome (process_pdf_async e j s)
           = outcome (process_pdf_async e j
               (s\<lparr>files := (files s)(pdf_path j \<mapsto> Pdf (take MAX_PAGES pages))\<rparr>))
         \<and> final (process_pdf_async e j s)
           = final (process_pdf_async e j
               (s\<lparr>files := (files s)(pdf_path j \<mapsto> Pdf (take MAX_PAGES pages))\<rparr>))
         \<and> units (final (process_pdf_async e j s)) \<le> MAX_PAGES
         \<and> (outcome (process_pdf_async e j s) = Completed
              \<or> outcome (process_pdf_async e j s) = Failed NoTableDetected \<longrightarrow>
               units (final (process_pdf_async e j s)) = MAX_PAGES
               \<and> ws (final (process_pdf_async e j s))
                   = append_all Workbook (rows_of (take MAX_PAGES pages)))
         \<and> shows_total MAX_PAGES (log (final (process_pdf_async e j s)))"
proof -
  from assms(2) have m: "min (length pages) MAX_PAGES = MAX_PAGES" by simp
  from process_shows_total [where s = s and j = j and e = e, OF assms(1)] m
  have tot: "shows_total MAX_PAGES (log (final (process_pdf_async e j s)))" by simp
  from assms(2) have ne: "pages \<noteq> []" by auto
  from try_block_units [where fs = "files s" and j = j, OF assms(1), of e] m
       final_of_try_block [of e j s]
  have le: "units (final (process_pdf_async e j s)) \<le> MAX_PAGES" by simp
  have "outcome (process_pdf_async e j s) = Completed
          \<or> outcome (process_pdf_async e j s) = Failed NoTableDetected \<longrightarrow>
        units (final (process_pdf_async e j s)) = MAX_PAGES
        \<and> ws (final (process_pdf_async e j s))
            = append_all Workbook (rows_of (take MAX_PAGES pages))"
  proof
    assume a: "outcome (process_pdf_async e j s) = Completed
          \<or> outcome (process_pdf_async e j s) = Failed NoTableDetected"
    then have "\<forall>k. outcome (process_pdf_async e j s) \<noteq> Cancelled k"
      and "outcome (process_pdf_async e j s) \<noteq> Failed UnexpectedFault" by auto
    from process_finished [where s = s and j = j and e = e, OF assms(1) ne this] m
    show "units (final (process_pdf_async e j s)) = MAX_PAGES
        \<and> ws (final (process_pdf_async e j s))
            = append_all Workbook (rows_of (take MAX_PAGES pages))"
      by simp
  qed
  with process_clamped [OF assms, of e] le tot show ?thesis by blast
qed

lemma convert_undisturbed_outcome:
  assumes f: "files s (pdf_path j) = Some (Pdf pages)" and ne: "pages \<noteq> []"
      and nc: "\<forall>i. \<not> is_set e i" and bot: "\<forall>n. \<not> bot_raises e n"
      and app: "\<forall>r. \<not> append_raises e r" and sv: "\<not> save_raises e"
  shows "outcome (process_pdf_async e j s)
           = (if max_row (append_all Workbook (rows_of (take MAX_PAGES pages))) = 1
                 \<and> row1_all_none (append_all Workbook (rows_of (take MAX_PAGES pages)))
              then Failed NoTableDetected else Completed)"
proof -
  from undisturbed_run_finishes [OF assms]
  have "\<forall>k. outcome (process_pdf_async e j s) \<noteq> Cancelled k"
    and "outcome (process_pdf_async e j s) \<noteq> Failed UnexpectedFault" by auto
  from process_finished [where s = s and j = j and e = e, OF f ne this]
  show ?thesis by (simp split: if_splits)
qed

lemma rows_of_blank: "rows_of (replicate n blank_page) = []"
  by (induction n) (simp_all add: rows_of_def blank_page_def extract_table_def)

lemma sys_with_clamped:
  "files ((sys_with 7 ''a.pdf'' (replicate 3001 blank_page))
            \<lparr>files := (files (sys_with 7 ''a.pdf'' (replicate 3001 blank_page)))
               (pdf_path (job_for 7 ''a.pdf'')
                  \<mapsto> Pdf (take MAX_PAGES (replicate 3001 blank_page)))\<rparr>)
     = files (sys_with 7 ''a.pdf'' (replicate 3000 blank_page))"
  by (simp add: sys_with_def tmp_with_def job_for_def MAX_PAGES_def)

lemma long_file:
  "files (sys_with 7 ''a.pdf'' (replicate 3001 blank_page)) (pdf_path (job_for 7 ''a.pdf''))
     = Some (Pdf (replicate 3001 blank_page))"
  by (simp add: sys_with_def tmp_with_def job_for_def)

lemma long_length: "MAX_PAGES < length (replicate 3001 blank_page)"
  by (simp add: MAX_PAGES_def)

lemma calm_facts:
  "(\<forall>i. \<not> is_set calm i)" "(\<forall>n. \<not> bot_raises calm n)" "(\<forall>r. \<not> append_raises calm r)"
  "\<not> save_raises calm"
  by (simp_all add: calm_def)

theorem pages_clamped_witness:
  "MAX_PAGES < length (replicate 3001 blank_page)
   \<and> outcome (process_pdf_async calm (job_for 7 ''a.pdf'')
                (sys_with 7 ''a.pdf'' (replicate 3001 blank_page))) = Failed NoTableDetected
   \<and> units (final (process_pdf_async calm (job_for 7 ''a.pdf'')
                     (sys_with 7 ''a.pdf'' (replicate 3001 blank_page)))) = 3000"
proof -
  let ?s = "sys_with 7 ''a.pdf'' (replicate 3001 blank_page)"
  let ?j = "job_for 7 ''a.pdf''"
  have ne: "replicate 3001 blank_page \<noteq> []" by simp
  have rows: "rows_of (take MAX_PAGES (replicate 3001 blank_page)) = []"
    by (simp add: rows_of_blank)
  from convert_undisturbed_outcome [where s = ?s and j = ?j and e = calm, OF long_file ne calm_facts]
       rows empty_sheet
  have oc: "outcome (process_pdf_async calm ?j ?s) = Failed NoTableDetected" by simp
  from pages_clamped [where s = ?s and j = ?j and e = calm, OF long_file long_length] oc
  have "units (final (process_pdf_async calm ?j ?s)) = MAX_PAGES" by blast
  with oc long_length show ?thesis by (simp add: MAX_PAGES_def)
qed

text \<open>
  The claim as worded fails on the caveat: the client of a PDF with 3001 pages gets
  message for message what the client of a PDF with 3000 pages gets.
\<close>

theorem clamping_unseen_counterexample:
  "MAX_PAGES < length (replicate 3001 blank_page)
   \<and> length (replicate 3000 blank_page) \<le> MAX_PAGES
   \<and> log (final (process_pdf_async calm (job_for 7 ''a.pdf'')
                   (sys_with 7 ''a.pdf'' (replicate 3001 blank_page))))
       = log (final (process_pdf_async calm (job_for 7 ''a.pdf'')
                   (sys_with 7 ''a.pdf'' (replicate 3000 blank_page))))
   \<and> outcome (process_pdf_async calm (job_for 7 ''a.pdf'')
                (sys_with 7 ''a.pdf'' (replicate 3001 blank_page)))
       = outcome (process_pdf_async calm (job_for 7 ''a.pdf'')
                (sys_with 7 ''a.pdf'' (replicate 3000 blank_page)))
   \<and> outcome (process_pdf_async calm (job_for 7 ''a.pdf'')
                (sys_with 7 ''a.pdf'' (replicate 3001 blank_page))) = Failed NoTableDetected
   \<and> last (log (final (process_pdf_async calm (job_for 7 ''a.pdf'')
                   (sys_with 7 ''a.pdf'' (replicate 3001 blank_page))))) = (NoTables, True)
   \<and> shows_total 3000 (log (final (process_pdf_async calm (job_for 7 ''a.pdf'')
                   (sys_with 7 ''a.pdf'' (replicate 3001 blank_page)))))"
proof -
  let ?s = "sys_with 7 ''a.pdf'' (replicate 3001 blank_page)"
  let ?s' = "?s\<lparr>files := (files ?s)(pdf_path (job_for 7 ''a.pdf'')
                  \<mapsto> Pdf (take MAX_PAGES (replicate 3001 blank_page)))\<rparr>"
  let ?t = "sys_with 7 ''a.pdf'' (replicate 3000 blank_page)"
  let ?j = "job_for 7 ''a.pdf''"
  note a = process_clamped [where s = ?s and j = ?j and e = calm, OF long_file long_length]
  have "fst (try_block calm ?j (files ?s')) = fst (try_block calm ?j (files ?t))"
    and "fst (snd (try_block calm ?j (files ?s'))) = fst (snd (try_block calm ?j (files ?t)))"
    by (simp_all only: sys_with_clamped)
  note b = process_by_try_block [OF this]
  have ne: "replicate 3001 blank_page \<noteq> []" by simp
  have rows: "rows_of (take MAX_PAGES (replicate 3001 blank_page)) = []"
    by (simp add: rows_of_blank)
  from undisturbed_run_finishes [where s = ?s and j = ?j and e = calm, OF long_file ne calm_facts]
  have "\<forall>k. outcome (process_pdf_async calm ?j ?s) \<noteq> Cancelled k"
    and "outcome (process_pdf_async calm ?j ?s) \<noteq> Failed UnexpectedFault" by auto
  from process_finished [where s = ?s and j = ?j and e = calm, OF long_file ne this]
       rows empty_sheet
  have c: "outcome (process_pdf_async calm ?j ?s) = Failed NoTableDetected
           \<and> last (log (final (process_pdf_async calm ?j ?s))) = (NoTables, True)"
    by simp
  from process_shows_total [where s = ?s and j = ?j and e = calm, OF long_file]
  have d: "shows_total 3000 (log (final (process_pdf_async calm ?j ?s)))"
    by (simp add: MAX_PAGES_def)
  from a b c d long_length show ?thesis by (simp add: MAX_PAGES_def)
qed

section \<open>Cleanup when a removal raises\<close>

text \<open>
  Whatever the run does, the \<open>finally\<close> clause takes the entry of the chat out of the
  registry, and when \<open>os.remove\<close> raises on neither path, neither file is left. Whether
  a removal raises changes neither the outcome nor the messages of the run.
\<close>

lemma cleanup_when_removals_succeed:
  "active_jobs (after (process_pdf_async e j s)) = (active_jobs s)(job_chat_id j := None)
   \<and> (\<not> remove_raises e (pdf_path j) \<and> \<not> remove_raises e (excel_path j) \<longrightarrow>
        files (after (process_pdf_async e j s)) (pdf_path j) = None
        \<and> files (after (process_pdf_async e j s)) (excel_path j) = None)
   \<and> outcome (process_pdf_async (e\<lparr>remove_raises := rr\<rparr>) j s) = outcome (process_pdf_async e j s)
   \<and> log (final (process_pdf_async (e\<lparr>remove_raises := rr\<rparr>) j s))
       = log (final (process_pdf_async e j s))"
  by (simp add: process_unfold process_remove_raises remove_temp_files_ok)

text \<open>
  C2. After every run the registry entry and both files, when present, are to be gone, a
  failing removal being logged only. Both removals stand in one \<open>try\<close>: in a completed
  run in which removing the source raises, the entry is removed and the outcome stands,
  but the removal of the output file is never tried, and the file, which could be
  removed, is left beside the source.
\<close>

theorem source_removal_skips_output:
  "outcome (process_pdf_async stuck_source (job_for 7 ''a.pdf'') (sys_with 7 ''a.pdf'' [table_page]))
     = Completed
   \<and> pdf_path (job_for 7 ''a.pdf'') = ''/tmp/a.pdf''
   \<and> excel_path (job_for 7 ''a.pdf'') = ''/tmp/a.xlsx''
   \<and> remove_raises stuck_source ''/tmp/a.pdf''
   \<and> \<not> remove_raises stuck_source ''/tmp/a.xlsx''
   \<and> active_jobs (after (process_pdf_async stuck_source (job_for 7 ''a.pdf'')
                           (sys_with 7 ''a.pdf'' [table_page]))) 7 = None
   \<and> files (after (process_pdf_async stuck_source (job_for 7 ''a.pdf'')
                     (sys_with 7 ''a.pdf'' [table_page]))) ''/tmp/a.pdf''
       = Some (Pdf [table_page])
   \<and> files (after (process_pdf_async stuck_source (job_for 7 ''a.pdf'')
                     (sys_with 7 ''a.pdf'' [table_page]))) ''/tmp/a.xlsx''
       = Some (Xlsx (append_all Workbook [[Some ''x'', None]]))"
  by (simp add: process_pdf_async_def try_block_def convert_def stuck_source_def calm_def
        job_for_def sys_with_def tmp_with_def table_page_def bot_call_def Workbook_def
        MAX_PAGES_def PROGRESS_STEPS_def extract_table_def ws_append_def check_string_def
        max_row_def row1_all_none_def remove_temp_files_def source_path_def output_path_def
        append_all_def)

end
